theory Spec2Isabelle
  imports Complex_Main "HOL-Library.Log_Nat"
begin

section \<open>JavaScript numbers\<close>

text \<open>
  The thermal engine of \<^verbatim>\<open>src/App.jsx\<close> (the \<^verbatim>\<open>physics\<close> memo, lines 130 to 142) is
  arithmetic on JavaScript Numbers, that is IEEE 754 binary64 values. A Number is
  modelled by its sign and the exact real magnitude it denotes, or it is an infinity or
  NaN. \<open>Finite False 0\<close> is \<open>+0\<close> and \<open>Finite True 0\<close> is \<open>-0\<close>. Every arithmetic
  operation computes the exact real result and rounds it to the nearest binary64 value,
  ties to even, as the language specifies.
\<close>

datatype number = Finite bool real | Infinity bool | NaN

text \<open>Round to the nearest integer, ties to the even one.\<close>

definition rne :: "real \<Rightarrow> int" where
  "rne m = (let f = \<lfloor>m\<rfloor>; d = m - of_int f in
     if d < 1 / 2 then f else if 1 / 2 < d then f + 1 else if even f then f else f + 1)"

text \<open>The binary exponent of a positive real: \<open>2 powi expo x \<le> x < 2 powi (expo x + 1)\<close>.\<close>

definition expo :: "real \<Rightarrow> int" where
  "expo x = (if 1 \<le> x then bitlen \<lfloor>x\<rfloor> - 1 else - bitlen (\<lceil>1 / x\<rceil> - 1))"

text \<open>
  The spacing of binary64 values around a magnitude: 53 significant bits, and the fixed
  spacing \<open>2 powi (- 1074)\<close> of the subnormal range below \<open>2 powi (- 1022)\<close>.
\<close>

definition binade :: "real \<Rightarrow> int" where
  "binade x = (if x < 2 powi (- 1022) then - 1022 else expo x)"

definition quantum :: "real \<Rightarrow> real" where
  "quantum x = 2 powi (binade x - 52)"

definition round_mag :: "real \<Rightarrow> real" where
  "round_mag x = of_int (rne (x / quantum x)) * quantum x"

text \<open>The Number for sign \<open>s\<close> and exact magnitude \<open>x\<close>; overflow gives an infinity.\<close>

definition fl :: "bool \<Rightarrow> real \<Rightarrow> number" where
  "fl s x = (let r = round_mag x in if 2 powi 1024 \<le> r then Infinity s else Finite s r)"

definition of_val :: "real \<Rightarrow> number" where
  "of_val v = fl (v < 0) \<bar>v\<bar>"

text \<open>A numeric literal of the source, and an array index (an integer, exact).\<close>

definition lit :: "real \<Rightarrow> number" where
  "lit v = of_val v"

definition num_of_nat :: "nat \<Rightarrow> number" where
  "num_of_nat i = Finite False (real i)"

fun val :: "number \<Rightarrow> real" where
  "val (Finite s x) = (if s then - x else x)"
| "val (Infinity s) = 0"
| "val NaN = 0"

fun js_neg :: "number \<Rightarrow> number" where
  "js_neg (Finite s x) = Finite (\<not> s) x"
| "js_neg (Infinity s) = Infinity (\<not> s)"
| "js_neg NaN = NaN"

text \<open>\<^verbatim>\<open>a + b\<close>: an exact zero sum is \<open>-0\<close> only when both operands are \<open>-0\<close>.\<close>

fun js_add :: "number \<Rightarrow> number \<Rightarrow> number" where
  "js_add NaN b = NaN"
| "js_add a NaN = NaN"
| "js_add (Infinity s) (Infinity t) = (if s = t then Infinity s else NaN)"
| "js_add (Infinity s) (Finite t y) = Infinity s"
| "js_add (Finite s x) (Infinity t) = Infinity t"
| "js_add (Finite s x) (Finite t y) =
     (let v = val (Finite s x) + val (Finite t y)
      in if v = 0 then Finite (s \<and> t) 0 else of_val v)"

text \<open>\<^verbatim>\<open>a - b\<close> is \<^verbatim>\<open>a + (-b)\<close>.\<close>

definition js_sub :: "number \<Rightarrow> number \<Rightarrow> number" where
  "js_sub a b = js_add a (js_neg b)"

fun js_mul :: "number \<Rightarrow> number \<Rightarrow> number" where
  "js_mul NaN b = NaN"
| "js_mul a NaN = NaN"
| "js_mul (Infinity s) (Infinity t) = Infinity (s \<noteq> t)"
| "js_mul (Infinity s) (Finite t y) = (if y = 0 then NaN else Infinity (s \<noteq> t))"
| "js_mul (Finite s x) (Infinity t) = (if x = 0 then NaN else Infinity (s \<noteq> t))"
| "js_mul (Finite s x) (Finite t y) = fl (s \<noteq> t) (x * y)"

fun js_div :: "number \<Rightarrow> number \<Rightarrow> number" where
  "js_div NaN b = NaN"
| "js_div a NaN = NaN"
| "js_div (Infinity s) (Infinity t) = NaN"
| "js_div (Infinity s) (Finite t y) = Infinity (s \<noteq> t)"
| "js_div (Finite s x) (Infinity t) = Finite (s \<noteq> t) 0"
| "js_div (Finite s x) (Finite t y) =
     (if y = 0 then (if x = 0 then NaN else Infinity (s \<noteq> t))
      else fl (s \<noteq> t) (x / y))"

text \<open>
  \<^verbatim>\<open>Math.log\<close>. The language fixes its value at NaN, the infinities, the zeros, the
  negative numbers and 1; elsewhere the result is an approximation that the
  implementation chooses. That approximation is the parameter \<open>lg\<close>, rounded to a Number.
\<close>

fun Math_log :: "(real \<Rightarrow> real) \<Rightarrow> number \<Rightarrow> number" where
  "Math_log lg NaN = NaN"
| "Math_log lg (Infinity s) = (if s then NaN else Infinity False)"
| "Math_log lg (Finite s x) =
     (if x = 0 then Infinity True
      else if s then NaN
      else if x = 1 then Finite False 0
      else of_val (lg x))"

text \<open>Truthiness of a Number, and \<^verbatim>\<open>a || b\<close> on Numbers.\<close>

fun ToBoolean :: "number \<Rightarrow> bool" where
  "ToBoolean (Finite s x) = (x \<noteq> 0)"
| "ToBoolean (Infinity s) = True"
| "ToBoolean NaN = False"

definition js_or :: "number \<Rightarrow> number \<Rightarrow> number" where
  "js_or a b = (if ToBoolean a then a else b)"

text \<open>
  \<^verbatim>\<open>x.toFixed(1)\<close>. For a finite \<open>x\<close> of magnitude below \<open>10 ^ 21\<close> the text is an optional
  minus sign and the decimal digits of the integer \<open>n\<close> nearest to ten times the
  magnitude (the larger one on a tie), with a point before the last digit:
  \<open>Tenths s n\<close>. Any other \<open>x\<close> is printed as \<^verbatim>\<open>String(x)\<close> prints it: \<open>Verbatim x\<close>,
  which is the text \<^verbatim>\<open>NaN\<close>, \<^verbatim>\<open>Infinity\<close>, \<^verbatim>\<open>-Infinity\<close> or an exponent form.
\<close>

datatype fixed = Tenths bool nat | Verbatim number

fun toFixed1 :: "number \<Rightarrow> fixed" where
  "toFixed1 (Finite s x) =
     (if 10 ^ 21 \<le> x then Verbatim (Finite s x)
      else Tenths (s \<and> 0 < x) (nat \<lfloor>10 * x + 1 / 2\<rfloor>))"
| "toFixed1 (Infinity s) = Verbatim (Infinity s)"
| "toFixed1 NaN = Verbatim NaN"

text \<open>
  The number that such a text denotes. The text of \<open>Verbatim x\<close> reads back as \<open>x\<close>.
\<close>

fun fixed_num :: "fixed \<Rightarrow> number" where
  "fixed_num (Tenths s n) = Finite s (real n / 10)"
| "fixed_num (Verbatim x) = x"

section \<open>The configuration and the thermal engine\<close>

datatype exchanger_model = ShellTube | DoublePipe | Plate | Finned | Spiral

record config =
  model :: exchanger_model
  tempIn :: number
  flow :: number
  length_m :: number
  radius :: number
  areaOverride :: number
  fouling :: number

record material =
  name :: string
  k :: number
  color :: string

record sample =
  dist :: nat
  Hot :: fixed
  Cold :: fixed

record performance =
  Q :: number
  LMTD :: number
  U :: number
  data :: "sample list"
  Efficiency :: number

text \<open>The initial state of \<^verbatim>\<open>App\<close> and the catalog of materials.\<close>

definition initial_config :: config where
  "initial_config = \<lparr>model = ShellTube, tempIn = lit 90, flow = lit 25, length_m = lit 8,
     radius = lit (3 / 10), areaOverride = lit 15, fouling = lit (5 / 10000)\<rparr>"

definition materials :: "material list" where
  "materials =
    [\<lparr>name = ''Copper'', k = lit 401, color = ''#b87333''\<rparr>,
     \<lparr>name = ''Silver'', k = lit 429, color = ''#e5e7eb''\<rparr>,
     \<lparr>name = ''Steel'', k = lit 50, color = ''#94a3b8''\<rparr>,
     \<lparr>name = ''Graphite'', k = lit 140, color = ''#334155''\<rparr>,
     \<lparr>name = ''Glass'', k = lit (11 / 10), color = ''#a5f3fc''\<rparr>,
     \<lparr>name = ''PVC'', k = lit (19 / 100), color = ''#f1f5f9''\<rparr>]"

text \<open>The constants of \<^verbatim>\<open>physics\<close>, one definition for each \<^verbatim>\<open>const\<close> of the source.\<close>

definition physics_cleanU :: "config \<Rightarrow> material \<Rightarrow> number" where
  "physics_cleanU config mat =
     js_mul (js_div (k mat) (lit (5 / 100))) (js_div (flow config) (lit 50))"

definition physics_U :: "config \<Rightarrow> material \<Rightarrow> number" where
  "physics_U config mat =
     js_div (lit 1) (js_add (js_div (lit 1) (physics_cleanU config mat)) (fouling config))"

definition physics_Efficiency :: "config \<Rightarrow> material \<Rightarrow> number" where
  "physics_Efficiency config mat =
     js_mul (js_div (physics_U config mat) (physics_cleanU config mat)) (lit 100)"

definition physics_LMTD :: "(real \<Rightarrow> real) \<Rightarrow> config \<Rightarrow> number" where
  "physics_LMTD lg config =
     js_div (js_sub (tempIn config) (lit 40))
       (Math_log lg (js_or (js_div (js_sub (tempIn config) (lit 25)) (lit 15)) (lit (11 / 10))))"

definition physics_Q :: "(real \<Rightarrow> real) \<Rightarrow> config \<Rightarrow> material \<Rightarrow> number" where
  "physics_Q lg config mat =
     js_div (js_mul (js_mul (physics_U config mat) (areaOverride config)) (physics_LMTD lg config))
       (lit 1000)"

definition physics_data :: "(real \<Rightarrow> real) \<Rightarrow> config \<Rightarrow> material \<Rightarrow> sample list" where
  "physics_data lg config mat =
     map (\<lambda>i. \<lparr>dist = i,
         Hot = toFixed1 (js_sub (tempIn config)
                 (js_mul (num_of_nat i) (js_div (physics_Q lg config mat) (lit 15)))),
         Cold = toFixed1 (js_add (lit 25)
                 (js_mul (num_of_nat i) (js_div (physics_Q lg config mat) (lit 25))))\<rparr>)
       [0..<11]"

definition physics :: "(real \<Rightarrow> real) \<Rightarrow> config \<Rightarrow> material \<Rightarrow> performance" where
  "physics lg config mat =
     \<lparr>Q = physics_Q lg config mat, LMTD = physics_LMTD lg config, U = physics_U config mat,
      data = physics_data lg config mat, Efficiency = physics_Efficiency config mat\<rparr>"

text \<open>The handler of the CLEAN SYSTEM button: \<^verbatim>\<open>setConfig({...config, fouling: 0})\<close>.\<close>

definition clean_system :: "config \<Rightarrow> config" where
  "clean_system config = config\<lparr>fouling := lit 0\<rparr>"

text \<open>
  What a call of the engine delivers to its caller: a thrown error or a value. The body
  of \<^verbatim>\<open>physics\<close> has no \<^verbatim>\<open>throw\<close>, and on Numbers none of its operations throws
  (arithmetic, \<^verbatim>\<open>Math.log\<close>, \<^verbatim>\<open>Array.from\<close>, \<^verbatim>\<open>toFixed(1)\<close>), so every call returns.
\<close>

datatype error = DomainError

definition physics_outcome :: "(real \<Rightarrow> real) \<Rightarrow> config \<Rightarrow> material \<Rightarrow> error + performance" where
  "physics_outcome lg config mat = Inr (physics lg config mat)"

text \<open>The comparisons \<^verbatim>\<open>a <= b\<close> and \<^verbatim>\<open>a < b\<close> on Numbers: false when an operand is NaN.\<close>

fun num_le :: "number \<Rightarrow> number \<Rightarrow> bool" where
  "num_le NaN b = False"
| "num_le a NaN = False"
| "num_le (Infinity s) (Infinity t) = (s \<or> \<not> t)"
| "num_le (Infinity s) (Finite t y) = s"
| "num_le (Finite s x) (Infinity t) = (\<not> t)"
| "num_le (Finite s x) (Finite t y) = (val (Finite s x) \<le> val (Finite t y))"

fun num_less :: "number \<Rightarrow> number \<Rightarrow> bool" where
  "num_less NaN b = False"
| "num_less a NaN = False"
| "num_less (Infinity s) (Infinity t) = (s \<and> \<not> t)"
| "num_less (Infinity s) (Finite t y) = s"
| "num_less (Finite s x) (Infinity t) = (\<not> t)"
| "num_less (Finite s x) (Finite t y) = (val (Finite s x) < val (Finite t y))"

text \<open>
  A value of the model that is a Number: a finite one has a magnitude that is not negative
  and is a binary64 value. The domain of the configurator: Numbers within the \<^verbatim>\<open>min\<close>
  and \<^verbatim>\<open>max\<close> of the sliders for inlet temperature, mass flow rate, exchanger area and
  fouling factor.
\<close>

definition double :: "number \<Rightarrow> bool" where
  "double a =
     (case a of
        Finite s x \<Rightarrow> 0 \<le> x \<and> x < 2 powi 1024 \<and> round_mag x = x
      | Infinity s \<Rightarrow> True
      | NaN \<Rightarrow> True)"

definition valid_config :: "config \<Rightarrow> bool" where
  "valid_config config =
     (double (tempIn config) \<and> double (flow config) \<and>
      double (areaOverride config) \<and> double (fouling config) \<and>
      num_le (lit 40) (tempIn config) \<and> num_le (tempIn config) (lit 150) \<and>
      num_le (lit 5) (flow config) \<and> num_le (flow config) (lit 100) \<and>
      num_le (lit 1) (areaOverride config) \<and> num_le (areaOverride config) (lit 50) \<and>
      num_le (lit 0) (fouling config) \<and> num_le (fouling config) (lit (1 / 100)))"

text \<open>The formulas as the specification words them, over the same arithmetic.\<close>

definition cleanCoefficient_U0 :: "number \<Rightarrow> number \<Rightarrow> number" where
  "cleanCoefficient_U0 thermalConductivity_k massFlowRate_kgps =
     js_mul (js_div thermalConductivity_k (lit (5 / 100))) (js_div massFlowRate_kgps (lit 50))"

definition overallCoefficient_U :: "number \<Rightarrow> number \<Rightarrow> number" where
  "overallCoefficient_U u0 foulingFactor =
     js_div (lit 1) (js_add (js_div (lit 1) u0) foulingFactor)"

definition heatDuty_kW :: "number \<Rightarrow> number \<Rightarrow> number \<Rightarrow> number" where
  "heatDuty_kW u exchangerArea_m2 lmtd = js_div (js_mul (js_mul u exchangerArea_m2) lmtd) (lit 1000)"

text \<open>The initial state with an exchanger area of \<open>+Infinity\<close>.\<close>

definition infinite_area :: config where
  "infinite_area = initial_config\<lparr>areaOverride := Infinity False\<rparr>"

section \<open>Evaluating the arithmetic on numerals\<close>

lemma bitlen_numeral_step: "bitlen (numeral n) = bitlen (numeral n div 2) + 1"
  by (subst compute_bitlen) simp

lemma bitlen_one: "bitlen 1 = 1"
  by (subst compute_bitlen) simp

lemma bitlen_neg_numeral: "bitlen (- numeral n) = 0"
  by (subst compute_bitlen) simp

lemma powi_two_eval: "(2::real) powi i = (if 0 \<le> i then 2 ^ nat i else 1 / 2 ^ nat (- i))"
  by (simp add: power_int_def field_simps)

lemmas fl_eval = lit_def of_val_def fl_def round_mag_def quantum_def binade_def expo_def rne_def Let_def
  bitlen_numeral_step bitlen_one bitlen_neg_numeral powi_two_eval

lemmas config_eval = initial_config_def materials_def clean_system_def js_sub_def js_or_def

lemma lit_0: "lit 0 = Finite False 0"
  by (simp add: fl_eval)

lemma lit_1: "lit 1 = Finite False 1"
  by (simp add: fl_eval)

lemma lit_5: "lit 5 = Finite False 5"
  by (simp add: fl_eval)

lemma lit_15: "lit 15 = Finite False 15"
  by (simp add: fl_eval)

lemma lit_25: "lit 25 = Finite False 25"
  by (simp add: fl_eval)

lemma lit_40: "lit 40 = Finite False 40"
  by (simp add: fl_eval)

lemma lit_50: "lit 50 = Finite False 50"
  by (simp add: fl_eval)

lemma lit_90: "lit 90 = Finite False 90"
  by (simp add: fl_eval)

lemma lit_100: "lit 100 = Finite False 100"
  by (simp add: fl_eval)

lemma lit_150: "lit 150 = Finite False 150"
  by (simp add: fl_eval)

lemma lit_1000: "lit 1000 = Finite False 1000"
  by (simp add: fl_eval)

lemma lit_401: "lit 401 = Finite False 401"
  by (simp add: fl_eval)

lemma lit_0_05: "lit (1 / 20) = Finite False (3602879701896397 / 72057594037927936)"
  by (simp add: fl_eval)

lemma lit_0_01: "lit (1 / 100) = Finite False (5764607523034235 / 576460752303423488)"
  by (simp add: fl_eval)

lemma lit_0_0005: "lit (1 / 2000) = Finite False (1152921504606847 / 2305843009213693952)"
  by (simp add: fl_eval)

lemma lit_1_1: "lit (11 / 10) = Finite False (2476979795053773 / 2251799813685248)"
  by (simp add: fl_eval)

lemmas lit_eval = lit_0 lit_1 lit_5 lit_15 lit_25 lit_40 lit_50 lit_90 lit_100 lit_150 lit_1000
  lit_401 lit_0_05 lit_0_01 lit_0_0005 lit_1_1

lemma cleanU_initial: "physics_cleanU initial_config (materials ! 0) = Finite False 4010"
  by (simp add: physics_cleanU_def config_eval lit_eval fl_eval)

lemma cleanU_cleaned: "physics_cleanU (clean_system initial_config) (materials ! 0) = Finite False 4010"
  by (simp add: physics_cleanU_def config_eval lit_eval fl_eval)

lemma fouling_clean_system: "fouling (clean_system config) = Finite False 0"
  by (simp add: clean_system_def lit_0)

lemma U_cleaned:
  "physics_U (clean_system initial_config) (materials ! 0) =
     Finite False (8818083254763521 / 2199023255552)"
  by (simp add: physics_U_def cleanU_cleaned fouling_clean_system lit_eval fl_eval)

lemma Efficiency_cleaned:
  "physics_Efficiency (clean_system initial_config) (materials ! 0) =
     Finite False (3518437208883201 / 35184372088832)"
  by (simp add: physics_Efficiency_def cleanU_cleaned U_cleaned lit_eval fl_eval)

lemma js_add_NaN_right: "js_add a NaN = NaN"
  by (cases a) simp_all

lemma js_sub_NaN_right: "js_sub a NaN = NaN"
  by (simp add: js_sub_def js_add_NaN_right)

lemma js_mul_NaN_right: "js_mul a NaN = NaN"
  by (cases a) simp_all

lemma js_div_NaN_right: "js_div a NaN = NaN"
  by (cases a) simp_all

section \<open>Rounding to binary64\<close>

lemma rne_floor: "\<lfloor>m\<rfloor> \<le> rne m \<and> rne m \<le> \<lfloor>m\<rfloor> + 1"
  by (simp add: rne_def Let_def)

lemma rne_upper: "real_of_int (rne m) \<le> m + 1 / 2"
  unfolding rne_def Let_def by (simp; linarith)

lemma rne_lower: "m - 1 / 2 \<le> real_of_int (rne m)"
  unfolding rne_def Let_def by (simp; linarith)

lemma rne_of_int: "rne (of_int n) = n"
  by (simp add: rne_def Let_def)

lemma rne_mono:
  assumes "m1 \<le> m2"
  shows "rne m1 \<le> rne m2"
proof (cases "\<lfloor>m1\<rfloor> = \<lfloor>m2\<rfloor>")
  case True
  with assms show ?thesis
    unfolding rne_def Let_def by (simp; linarith)
next
  case False
  with assms have "\<lfloor>m1\<rfloor> + 1 \<le> \<lfloor>m2\<rfloor>"
    using floor_mono [of m1 m2] by linarith
  with rne_floor [of m1] rne_floor [of m2] show ?thesis by linarith
qed

lemma rne_ge_int: "of_int n \<le> m \<Longrightarrow> n \<le> rne m"
  using rne_mono [of "of_int n" m] by (simp add: rne_of_int)

lemma rne_le_int: "m \<le> of_int n \<Longrightarrow> rne m \<le> n"
  using rne_mono [of m "of_int n"] by (simp add: rne_of_int)

lemma expo_bounds:
  assumes "0 < x"
  shows "2 powi expo x \<le> x \<and> x < 2 powi (expo x + 1)"
proof (cases "1 \<le> x")
  case True
  let ?n = "\<lfloor>x\<rfloor>"
  have n: "0 < ?n" using True by linarith
  from bitlen_bounds [OF n]
  have lo: "2 ^ nat (bitlen ?n - 1) \<le> ?n" and hi: "?n < 2 ^ nat (bitlen ?n)" by auto
  have b: "1 \<le> bitlen ?n"
  proof (rule ccontr)
    assume "\<not> 1 \<le> bitlen ?n"
    then have "nat (bitlen ?n) = 0" by simp
    with hi n show False by simp
  qed
  have e: "expo x = bitlen ?n - 1" using True by (simp add: expo_def)
  have "(2::real) ^ nat (bitlen ?n - 1) \<le> of_int ?n" using lo by simp
  also have "of_int ?n \<le> x" by simp
  finally have 1: "2 powi expo x \<le> x"
    using b e by (simp add: power_int_nonneg_exp)
  have "?n + 1 \<le> 2 ^ nat (bitlen ?n)" using hi by simp
  then have "of_int (?n + 1) \<le> (2::real) ^ nat (bitlen ?n)" by (simp del: of_int_add)
  moreover have "x < of_int (?n + 1)" by (simp; linarith)
  ultimately have "x < 2 ^ nat (bitlen ?n)" by linarith
  then have 2: "x < 2 powi (expo x + 1)"
    using b e by (simp add: power_int_nonneg_exp)
  from 1 2 show ?thesis ..
next
  case False
  let ?c = "\<lceil>1 / x\<rceil>"
  have y: "1 < 1 / x" using False assms by simp
  then have c: "0 < ?c - 1" by linarith
  from bitlen_bounds [OF c]
  have lo: "2 ^ nat (bitlen (?c - 1) - 1) \<le> ?c - 1" and hi: "?c - 1 < 2 ^ nat (bitlen (?c - 1))"
    by auto
  let ?b = "bitlen (?c - 1)"
  have b: "1 \<le> ?b"
  proof (rule ccontr)
    assume "\<not> 1 \<le> ?b"
    then have "nat ?b = 0" by simp
    with hi c show False by simp
  qed
  have e: "expo x = - ?b" using False by (simp add: expo_def)
  have "?c \<le> 2 ^ nat ?b" using hi by simp
  then have "of_int ?c \<le> (2::real) ^ nat ?b" by simp
  moreover have "1 / x \<le> of_int ?c" by simp
  ultimately have "1 / x \<le> 2 ^ nat ?b" by linarith
  then have "1 \<le> 2 ^ nat ?b * x" using assms by (simp add: field_simps)
  then have "1 / 2 ^ nat ?b \<le> x" by (simp add: field_simps)
  moreover have "2 powi (- ?b) = 1 / (2::real) ^ nat ?b"
    using b by (simp add: power_int_minus_divide power_int_nonneg_exp)
  ultimately have 1: "2 powi expo x \<le> x" using e by simp
  have "(2::real) ^ nat (?b - 1) \<le> of_int (?c - 1)" using lo by (simp del: of_int_diff)
  moreover have "of_int (?c - 1) < 1 / x" by (simp; linarith)
  ultimately have "2 ^ nat (?b - 1) < 1 / x" by linarith
  then have "2 ^ nat (?b - 1) * x < 1" using assms by (simp add: field_simps)
  then have "x < 1 / 2 ^ nat (?b - 1)" by (simp add: field_simps)
  moreover have "2 powi (- ?b + 1) = 1 / (2::real) ^ nat (?b - 1)"
  proof -
    have "- ?b + 1 = - (?b - 1)" by simp
    then show ?thesis
      using b by (simp only: power_int_minus_divide) (simp add: power_int_nonneg_exp)
  qed
  ultimately have 2: "x < 2 powi (expo x + 1)" using e by simp
  from 1 2 show ?thesis ..
qed

lemma powi_le_iff: "(2::real) powi a \<le> 2 powi b \<longleftrightarrow> a \<le> b"
proof
  assume l: "(2::real) powi a \<le> 2 powi b"
  show "a \<le> b"
  proof (rule ccontr)
    assume "\<not> a \<le> b"
    then have "(2::real) powi b < 2 powi a" by (intro power_int_strict_increasing) simp_all
    with l show False by simp
  qed
next
  assume "a \<le> b"
  then show "(2::real) powi a \<le> 2 powi b" by (intro power_int_increasing) simp_all
qed

lemma powi_less_iff: "(2::real) powi a < 2 powi b \<longleftrightarrow> a < b"
  using powi_le_iff [of b a] by (simp add: not_le [symmetric])

lemma expo_unique:
  assumes "2 powi e \<le> x" "x < 2 powi (e + 1)"
  shows "expo x = e"
proof -
  have x: "0 < x" using assms(1) zero_less_power_int [of "2::real" e] by linarith
  from expo_bounds [OF x] assms
  have "(2::real) powi e < 2 powi (expo x + 1)" "(2::real) powi expo x < 2 powi (e + 1)"
    by linarith+
  then have "e < expo x + 1" "expo x < e + 1" by (simp_all only: powi_less_iff)
  then show ?thesis by simp
qed

lemma quantum_pos: "0 < quantum x"
  by (simp add: quantum_def)

lemma two53: "(2::real) powi (b + 1) = 2 ^ 53 * 2 powi (b - 52)"
proof -
  have "(2::real) powi (53 + (b - 52)) = 2 powi 53 * 2 powi (b - 52)"
    by (rule power_int_add) simp
  then show ?thesis by (simp add: algebra_simps)
qed

lemma two52: "(2::real) powi b = 2 ^ 52 * 2 powi (b - 52)"
proof -
  have "(2::real) powi (52 + (b - 52)) = 2 powi 52 * 2 powi (b - 52)"
    by (rule power_int_add) simp
  then show ?thesis by (simp add: algebra_simps)
qed

lemma binade_subnormal: "x < 2 powi (- 1022) \<Longrightarrow> binade x = - 1022"
  by (simp add: binade_def)

lemma binade_normal: "2 powi (- 1022) \<le> x \<Longrightarrow> binade x = expo x"
  by (simp add: binade_def)

lemma normal_pos:
  assumes "(2::real) powi (- 1022) \<le> x"
  shows "0 < x"
proof -
  have "(0::real) < 2 powi (- 1022)" by (rule zero_less_power_int) simp
  with assms show ?thesis by linarith
qed

lemma binade_ge: "- 1022 \<le> binade x"
proof (cases "x < 2 powi (- 1022)")
  case True
  then show ?thesis by (simp add: binade_def)
next
  case False
  then have n: "2 powi (- 1022) \<le> x" by simp
  from expo_bounds [OF normal_pos [OF n]] n
  have "(2::real) powi (- 1022) < 2 powi (expo x + 1)" by linarith
  then have "- 1022 < expo x + 1" by (simp only: powi_less_iff)
  then show ?thesis using n by (simp add: binade_normal)
qed

lemma binade_upper: "x < 2 powi (binade x + 1)"
proof (cases "x < 2 powi (- 1022)")
  case True
  have "(2::real) powi (- 1022) < 2 powi (- 1022 + 1)" by (subst powi_less_iff) simp
  with True show ?thesis by (simp add: binade_def)
next
  case False
  then have n: "2 powi (- 1022) \<le> x" by simp
  from expo_bounds [OF normal_pos [OF n]] show ?thesis using n by (simp add: binade_normal)
qed

lemma binade_lower: "2 powi (- 1022) \<le> x \<Longrightarrow> 2 powi binade x \<le> x"
  using expo_bounds [OF normal_pos] by (simp add: binade_normal)

lemma binade_eqI:
  assumes "2 powi e \<le> x" "x < 2 powi (e + 1)" "- 1022 \<le> e"
  shows "binade x = e"
proof -
  have "(2::real) powi (- 1022) \<le> 2 powi e" using assms(3) by (simp only: powi_le_iff)
  with assms(1) have "2 powi (- 1022) \<le> x" by linarith
  then show ?thesis using expo_unique [OF assms(1,2)] by (simp add: binade_normal)
qed

lemma binade_mono:
  assumes "x \<le> y"
  shows "binade x \<le> binade y"
proof (cases "y < 2 powi (- 1022)")
  case True
  with assms show ?thesis by (simp add: binade_def)
next
  case ny: False
  show ?thesis
  proof (cases "x < 2 powi (- 1022)")
    case True
    then show ?thesis using binade_ge [of y] by (simp add: binade_subnormal)
  next
    case False
    then have "2 powi binade x \<le> x" by (simp add: binade_lower)
    also have "x \<le> y" by fact
    also have "y < 2 powi (binade y + 1)" by (rule binade_upper)
    finally have "binade x < binade y + 1" by (simp only: powi_less_iff)
    then show ?thesis by simp
  qed
qed

lemma round_mag_nonneg:
  assumes "0 \<le> x"
  shows "0 \<le> round_mag x"
proof -
  have "0 \<le> x / quantum x" using assms quantum_pos [of x] by simp
  then have "0 \<le> rne (x / quantum x)" using rne_ge_int [of 0 "x / quantum x"] by simp
  then show ?thesis using quantum_pos [of x] by (simp add: round_mag_def)
qed

lemma round_mag_upper: "round_mag x \<le> 2 powi (binade x + 1)"
proof -
  let ?q = "quantum x"
  have q: "0 < ?q" by (rule quantum_pos)
  have "x < 2 ^ 53 * ?q" using binade_upper [of x] by (simp add: two53 quantum_def)
  then have "x / ?q < 2 ^ 53" using q by (simp add: field_simps)
  then have "x / ?q \<le> of_int (2 ^ 53)" by simp
  then have "rne (x / ?q) \<le> 2 ^ 53" by (rule rne_le_int)
  then have "real_of_int (rne (x / ?q)) \<le> 2 ^ 53" by (simp only: of_int_le_numeral_power_cancel_iff)
  then have "real_of_int (rne (x / ?q)) * ?q \<le> 2 ^ 53 * ?q" using q by (simp only: mult_le_cancel_right) simp
  then show ?thesis by (simp add: round_mag_def two53 [of "binade x"] quantum_def)
qed

lemma round_mag_lower:
  assumes "2 powi (- 1022) \<le> x"
  shows "2 powi binade x \<le> round_mag x"
proof -
  let ?q = "quantum x"
  have q: "0 < ?q" by (rule quantum_pos)
  have "2 ^ 52 * ?q \<le> x" using binade_lower [OF assms] by (simp add: two52 [of "binade x"] quantum_def)
  then have "2 ^ 52 \<le> x / ?q" using q by (simp add: field_simps)
  then have "of_int (2 ^ 52) \<le> x / ?q" by simp
  then have "2 ^ 52 \<le> rne (x / ?q)" by (rule rne_ge_int)
  then have "2 ^ 52 \<le> real_of_int (rne (x / ?q))" by (simp only: numeral_power_le_of_int_cancel_iff)
  then have "2 ^ 52 * ?q \<le> real_of_int (rne (x / ?q)) * ?q" using q by (simp only: mult_le_cancel_right) simp
  then show ?thesis by (simp add: round_mag_def two52 [of "binade x"] quantum_def)
qed

lemma round_mag_sub_upper:
  assumes "x < 2 powi (- 1022)"
  shows "round_mag x \<le> 2 powi (- 1022)"
proof -
  let ?q = "quantum x"
  have q: "0 < ?q" by (rule quantum_pos)
  have b: "binade x = - 1022" using assms by (rule binade_subnormal)
  have "x < 2 ^ 52 * ?q" using assms two52 [of "- 1022"] by (simp add: quantum_def b)
  then have "x / ?q < 2 ^ 52" using q by (simp add: field_simps)
  then have "x / ?q \<le> of_int (2 ^ 52)" by simp
  then have "rne (x / ?q) \<le> 2 ^ 52" by (rule rne_le_int)
  then have "real_of_int (rne (x / ?q)) \<le> 2 ^ 52" by (simp only: of_int_le_numeral_power_cancel_iff)
  then have "real_of_int (rne (x / ?q)) * ?q \<le> 2 ^ 52 * ?q" using q by (simp only: mult_le_cancel_right) simp
  then show ?thesis using two52 [of "- 1022"] by (simp add: round_mag_def quantum_def b)
qed

lemma round_mag_mono:
  assumes "x \<le> y"
  shows "round_mag x \<le> round_mag y"
proof (cases "binade x = binade y")
  case True
  then have q: "quantum x = quantum y" by (simp add: quantum_def)
  have "x / quantum y \<le> y / quantum y"
    using assms quantum_pos [of y] by (simp add: divide_right_mono)
  then have "rne (x / quantum y) \<le> rne (y / quantum y)" by (rule rne_mono)
  then have "real_of_int (rne (x / quantum y)) \<le> real_of_int (rne (y / quantum y))" by simp
  then show ?thesis
    using quantum_pos [of y] by (simp add: round_mag_def q)
next
  case False
  with binade_mono [OF assms] have lt: "binade x + 1 \<le> binade y" by simp
  have ny: "2 powi (- 1022) \<le> y"
  proof (rule ccontr)
    assume "\<not> 2 powi (- 1022) \<le> y"
    then have "binade y = - 1022" by (simp add: binade_def)
    with lt binade_ge [of x] show False by simp
  qed
  have "round_mag x \<le> 2 powi (binade x + 1)" by (rule round_mag_upper)
  also have "\<dots> \<le> 2 powi binade y" using lt by (simp only: powi_le_iff)
  also have "\<dots> \<le> round_mag y" using ny by (rule round_mag_lower)
  finally show ?thesis .
qed

lemma round_mag_err:
  assumes "2 powi (- 1022) \<le> x"
  shows "\<bar>round_mag x - x\<bar> \<le> x / 2 ^ 53"
proof -
  let ?q = "quantum x"
  let ?n = "real_of_int (rne (x / ?q))"
  have q: "0 < ?q" by (rule quantum_pos)
  have "\<bar>?n - x / ?q\<bar> \<le> 1 / 2"
    using rne_upper [of "x / ?q"] rne_lower [of "x / ?q"] by linarith
  then have "\<bar>?n - x / ?q\<bar> * ?q \<le> 1 / 2 * ?q" using q by (simp only: mult_le_cancel_right) simp
  moreover have "\<bar>?n - x / ?q\<bar> * ?q = \<bar>?n * ?q - x\<bar>"
  proof -
    have "\<bar>?n - x / ?q\<bar> * ?q = \<bar>(?n - x / ?q) * ?q\<bar>" using q by (simp add: abs_mult)
    also have "(?n - x / ?q) * ?q = ?n * ?q - x" using q by (simp add: field_simps)
    finally show ?thesis .
  qed
  ultimately have e: "\<bar>round_mag x - x\<bar> \<le> ?q / 2" by (simp add: round_mag_def)
  have "2 ^ 52 * ?q \<le> x" using binade_lower [OF assms] by (simp add: two52 [of "binade x"] quantum_def)
  then have "?q / 2 \<le> x / 2 ^ 53" by simp
  with e show ?thesis by linarith
qed

lemma round_mag_grid:
  assumes "binade (real_of_int n * 2 powi (b - 52)) = b"
  shows "round_mag (real_of_int n * 2 powi (b - 52)) = real_of_int n * 2 powi (b - 52)"
proof -
  have "real_of_int n * 2 powi (b - 52) / 2 powi (b - 52) = real_of_int n" by simp
  then show ?thesis using assms by (simp add: round_mag_def quantum_def rne_of_int)
qed

lemma round_mag_pow2:
  assumes "- 1022 \<le> e"
  shows "round_mag (2 powi e) = 2 powi e"
proof -
  have "(2::real) powi e < 2 powi (e + 1)" by (subst powi_less_iff) simp
  then have "binade (2 powi e) = e" using assms by (intro binade_eqI) simp_all
  then have "binade (real_of_int (2 ^ 52) * 2 powi (e - 52)) = e"
    using two52 [of e] by simp
  from round_mag_grid [OF this] show ?thesis using two52 [of e] by simp
qed

lemma round_mag_idem:
  assumes "0 \<le> x"
  shows "round_mag (round_mag x) = round_mag x"
proof -
  let ?b = "binade x"
  let ?n = "rne (x / quantum x)"
  have r: "round_mag x = real_of_int ?n * 2 powi (?b - 52)"
    by (simp add: round_mag_def quantum_def)
  have up: "round_mag x \<le> 2 powi (?b + 1)" by (rule round_mag_upper)
  show ?thesis
  proof (cases "round_mag x = 2 powi (?b + 1)")
    case True
    have "- 1022 \<le> ?b + 1" using binade_ge [of x] by simp
    from round_mag_pow2 [OF this] True show ?thesis by simp
  next
    case False
    with up have lt: "round_mag x < 2 powi (?b + 1)" by simp
    have "binade (round_mag x) = ?b"
    proof (cases "2 powi ?b \<le> round_mag x")
      case True
      then show ?thesis using lt binade_ge [of x] by (intro binade_eqI)
    next
      case False
      then have small: "round_mag x < 2 powi ?b" by simp
      have sub: "x < 2 powi (- 1022)"
      proof (rule ccontr)
        assume "\<not> x < 2 powi (- 1022)"
        then have "2 powi ?b \<le> round_mag x" by (intro round_mag_lower) simp
        with small show False by simp
      qed
      then have b: "?b = - 1022" by (rule binade_subnormal)
      with small have "round_mag x < 2 powi (- 1022)" by simp
      then show ?thesis using b by (simp add: binade_subnormal)
    qed
    then have "binade (real_of_int ?n * 2 powi (?b - 52)) = ?b" using r by simp
    from round_mag_grid [OF this] show ?thesis using r by simp
  qed
qed

lemma normalI: "1 / 2 ^ 64 \<le> (x::real) \<Longrightarrow> 2 powi (- 1022) \<le> x"
proof -
  assume a: "1 / 2 ^ 64 \<le> x"
  have "(2::real) powi (- 1022) \<le> 2 powi (- 64)" by (subst powi_le_iff) simp
  also have "(2::real) powi (- 64) = 1 / 2 ^ 64" by (simp add: power_int_minus_divide)
  finally show ?thesis using a by linarith
qed

lemma round_mag_rel_upper:
  assumes "1 / 2 ^ 64 \<le> x"
  shows "round_mag x \<le> x * (1 + 1 / 2 ^ 53)"
proof -
  have "round_mag x - x \<le> x / 2 ^ 53"
    using round_mag_err [OF normalI [OF assms]] by linarith
  then show ?thesis by (simp add: algebra_simps)
qed

lemma round_mag_rel_lower:
  assumes "1 / 2 ^ 64 \<le> x"
  shows "x * (1 - 1 / 2 ^ 53) \<le> round_mag x"
proof -
  have "x - round_mag x \<le> x / 2 ^ 53"
    using round_mag_err [OF normalI [OF assms]] by linarith
  then show ?thesis by (simp add: algebra_simps)
qed

lemma fl_Finite: "round_mag x < 2 powi 1024 \<Longrightarrow> fl s x = Finite s (round_mag x)"
  by (simp add: fl_def Let_def)

lemma fl_bounded:
  assumes "x \<le> 2 powi 1023"
  shows "fl s x = Finite s (round_mag x)"
proof -
  have "round_mag x \<le> round_mag (2 powi 1023)" using assms by (rule round_mag_mono)
  also have "\<dots> = 2 powi 1023" by (rule round_mag_pow2) simp
  also have "(2::real) powi 1023 < 2 powi 1024" by (subst powi_less_iff) simp
  finally show ?thesis by (rule fl_Finite)
qed

lemma fl_FiniteD:
  assumes "fl s x = Finite t r"
  shows "t = s \<and> r = round_mag x \<and> r < 2 powi 1024"
  using assms by (simp add: fl_def Let_def split: if_splits)

lemma big_bound: "(x::real) \<le> 2 ^ 64 \<Longrightarrow> x \<le> 2 powi 1023"
proof -
  assume a: "x \<le> 2 ^ 64"
  have "(2::real) powi 64 \<le> 2 powi 1023" by (subst powi_le_iff) simp
  then show ?thesis using a by simp
qed

section \<open>Bounds for valid configurations\<close>

lemma js_div_pos:
  assumes "0 < y" "x / y \<le> 2 powi 1023"
  shows "js_div (Finite False x) (Finite False y) = Finite False (round_mag (x / y))"
  using assms by (simp add: fl_bounded)

lemma js_mul_pos:
  assumes "x * y \<le> 2 powi 1023"
  shows "js_mul (Finite False x) (Finite False y) = Finite False (round_mag (x * y))"
  using assms by (simp add: fl_bounded)

lemma js_add_pos:
  assumes "0 < x + val (Finite t y)" "x + val (Finite t y) \<le> 2 powi 1023"
  shows "js_add (Finite False x) (Finite t y) = Finite False (round_mag (x + val (Finite t y)))"
  using assms by (auto simp add: fl_bounded of_val_def Let_def)

lemma round_mag_ge_pow2:
  assumes "2 powi e \<le> x" "- 1022 \<le> e"
  shows "2 powi e \<le> round_mag x"
  using round_mag_mono [OF assms(1)] round_mag_pow2 [OF assms(2)] by simp

lemma round_mag_le_pow2:
  assumes "x \<le> 2 powi e" "- 1022 \<le> e"
  shows "round_mag x \<le> 2 powi e"
  using round_mag_mono [OF assms(1)] round_mag_pow2 [OF assms(2)] by simp

lemma material_K:
  assumes "mat \<in> set materials"
  shows "js_div (k mat) (lit (1 / 20)) = Finite False (val (js_div (k mat) (lit (1 / 20))))
    \<and> 2 \<le> val (js_div (k mat) (lit (1 / 20))) \<and> val (js_div (k mat) (lit (1 / 20))) \<le> 2 ^ 14"
  using assms by (auto simp add: materials_def fl_eval)

lemma valid_flow:
  assumes "valid_config config"
  shows "\<exists>f. flow config = Finite False f \<and> 5 \<le> f \<and> f \<le> 100"
proof (cases "flow config")
  case (Finite s f)
  with assms have "0 \<le> f" "5 \<le> val (Finite s f)" "val (Finite s f) \<le> 100"
    by (simp_all add: valid_config_def double_def lit_eval)
  then have "\<not> s" "5 \<le> f" "f \<le> 100" by (auto split: if_splits)
  with Finite show ?thesis by simp
next
  case (Infinity s)
  with assms show ?thesis by (auto simp add: valid_config_def lit_eval)
next
  case NaN
  with assms show ?thesis by (simp add: valid_config_def)
qed

lemma valid_fouling:
  assumes "valid_config config"
  shows "\<exists>t g. fouling config = Finite t g \<and> 0 \<le> val (Finite t g) \<and> val (Finite t g) \<le> 1 / 64"
proof (cases "fouling config")
  case (Finite t g)
  with assms have "0 \<le> val (Finite t g)"
    "val (Finite t g) \<le> 5764607523034235 / 576460752303423488"
    by (simp_all add: valid_config_def lit_eval)
  with Finite show ?thesis by simp
next
  case (Infinity s)
  with assms show ?thesis by (auto simp add: valid_config_def lit_eval)
next
  case NaN
  with assms show ?thesis by (simp add: valid_config_def)
qed

lemma pw: "(2::real) powi 1 = 2" "(2::real) powi (- 4) = 1 / 16" "(2::real) powi (- 3) = 1 / 8"
  "(2::real) powi 15 = 32768" "(2::real) powi 3 = 8" "(2::real) powi (- 15) = 1 / 32768"
  "(2::real) powi 4 = 16"
  by simp_all

lemma cleanU_range:
  assumes "valid_config config" "mat \<in> set materials"
  shows "\<exists>c. physics_cleanU config mat = Finite False c \<and> 1 / 8 \<le> c \<and> c \<le> 32768"
proof -
  from material_K [OF assms(2)] obtain K where
    K: "js_div (k mat) (lit (1 / 20)) = Finite False K" "2 \<le> K" "K \<le> 2 ^ 14" by metis
  from valid_flow [OF assms(1)] obtain f where
    f: "flow config = Finite False f" "5 \<le> f" "f \<le> 100" by blast
  let ?b = "round_mag (f / 50)"
  have "f / 50 \<le> 2 powi 1023" using f by (intro big_bound) simp
  then have B: "js_div (flow config) (lit 50) = Finite False ?b"
    using f by (simp add: lit_eval fl_bounded)
  have "2 powi (- 4) \<le> f / 50" using f by (simp add: pw)
  then have "2 powi (- 4) \<le> ?b" by (rule round_mag_ge_pow2) simp
  then have b1: "1 / 16 \<le> ?b" by (simp add: pw)
  have "f / 50 \<le> 2 powi 1" using f by (simp add: pw)
  then have "?b \<le> 2 powi 1" by (rule round_mag_le_pow2) simp
  then have b2: "?b \<le> 2" by (simp add: pw)
  have lo: "1 / 8 \<le> K * ?b"
  proof -
    have "2 * (1 / 16) \<le> K * ?b" using K(2) b1 by (intro mult_mono) simp_all
    then show ?thesis by simp
  qed
  have hi: "K * ?b \<le> 32768"
  proof -
    have "K * ?b \<le> 2 ^ 14 * 2" using K(2,3) b1 b2 by (intro mult_mono) simp_all
    then show ?thesis by simp
  qed
  have "K * ?b \<le> 2 powi 1023" using hi by (intro big_bound) simp
  then have c: "physics_cleanU config mat = Finite False (round_mag (K * ?b))"
    by (simp add: physics_cleanU_def K(1) B fl_bounded)
  have "2 powi (- 3) \<le> K * ?b" using lo by (simp add: pw)
  then have "2 powi (- 3) \<le> round_mag (K * ?b)" by (rule round_mag_ge_pow2) simp
  moreover have "K * ?b \<le> 2 powi 15" using hi by (simp add: pw)
  then have "round_mag (K * ?b) \<le> 2 powi 15" by (rule round_mag_le_pow2) simp
  ultimately show ?thesis using c by (simp add: pw)
qed

lemma lit_0_0001: "lit (1 / 10000) = Finite False (7378697629483821 / 73786976294838206464)"
  by (simp add: fl_eval)

lemma strict_core:
  fixes c a g b V :: real
  assumes c: "0 < c" and cg: "1 / 2 ^ 17 \<le> c * g"
    and a: "1 / c * (1 - 1 / 2 ^ 53) \<le> a"
    and b: "(a + g) * (1 - 1 / 2 ^ 53) \<le> b"
    and V: "V \<le> 1 / b * (1 + 1 / 2 ^ 53)"
  shows "V < c"
proof -
  define u :: real where "u = 1 / 2 ^ 53"
  have u: "0 < u" "u \<le> 1 / 2 ^ 50" by (simp_all add: u_def)
  define p where "p = c * a"
  define q where "q = c * g"
  define r where "r = c * b"
  have h1: "1 - u \<le> p"
  proof -
    have "c * (1 / c * (1 - u)) \<le> c * a"
      using a c unfolding u_def by (intro mult_left_mono) simp_all
    then show ?thesis using c by (simp add: p_def)
  qed
  have h2: "(p + q) * (1 - u) \<le> r"
  proof -
    have "c * ((a + g) * (1 - u)) \<le> c * b"
      using b c unfolding u_def by (intro mult_left_mono) simp_all
    then show ?thesis by (simp add: p_def q_def r_def algebra_simps)
  qed
  have h3: "(1 - u + 1 / 2 ^ 17) * (1 - u) \<le> (p + q) * (1 - u)"
  proof (rule mult_right_mono)
    show "1 - u + 1 / 2 ^ 17 \<le> p + q" using h1 cg by (simp add: q_def)
    show "0 \<le> 1 - u" using u by simp
  qed
  have h4: "1 + u < (1 - u + 1 / 2 ^ 17) * (1 - u)"
  proof -
    have sq: "0 \<le> u * u" by simp
    have id: "(1 - u + t) * (1 - u) = 1 - 2 * u + u * u + t - t * u" for t :: real
      by (simp add: algebra_simps)
    have u50: "u \<le> 1 / 1125899906842624" using u(2) by simp
    have "1 + u < 1 - 2 * u + u * u + 1 / 131072 - 1 / 131072 * u"
      using sq u50 u(1) by linarith
    then show ?thesis unfolding id [of "1 / 2 ^ 17"] by simp
  qed
  have cb: "1 + u < r" using h2 h3 h4 by linarith
  have bpos: "0 < b"
  proof -
    have "0 < c * b" using cb u by (simp add: r_def)
    with c show ?thesis by (simp add: zero_less_mult_iff)
  qed
  have "(1 + u) / b < c" using cb bpos by (simp add: r_def field_simps)
  with V show ?thesis unfolding u_def by simp
qed

lemma close_core:
  fixes c a V :: real
  assumes c: "0 < c"
    and a1: "1 / c * (1 - 1 / 2 ^ 53) \<le> a" and a2: "a \<le> 1 / c * (1 + 1 / 2 ^ 53)"
    and V1: "1 / a * (1 - 1 / 2 ^ 53) \<le> V" and V2: "V \<le> 1 / a * (1 + 1 / 2 ^ 53)"
  shows "c * (1 - 4 / 2 ^ 53) \<le> V \<and> V \<le> c * (1 + 4 / 2 ^ 53)"
proof -
  define p where "p = c * a"
  define q where "q = V * a"
  have apos: "0 < a"
  proof -
    have "0 < 1 / c * (1 - 1 / 2 ^ 53)" using c by simp
    with a1 show ?thesis by linarith
  qed
  have p1: "1 - 1 / 2 ^ 53 \<le> p"
  proof -
    have "c * (1 / c * (1 - 1 / 2 ^ 53)) \<le> c * a" using a1 c by (intro mult_left_mono) simp_all
    then show ?thesis using c by (simp add: p_def)
  qed
  have p2: "p \<le> 1 + 1 / 2 ^ 53"
  proof -
    have "c * a \<le> c * (1 / c * (1 + 1 / 2 ^ 53))" using a2 c by (intro mult_left_mono) simp_all
    then show ?thesis using c by (simp add: p_def)
  qed
  have q1: "1 - 1 / 2 ^ 53 \<le> q"
  proof -
    have "1 / a * (1 - 1 / 2 ^ 53) * a \<le> V * a" using V1 apos by (intro mult_right_mono) simp_all
    then show ?thesis using apos by (simp add: q_def)
  qed
  have q2: "q \<le> 1 + 1 / 2 ^ 53"
  proof -
    have "V * a \<le> 1 / a * (1 + 1 / 2 ^ 53) * a" using V2 apos by (intro mult_right_mono) simp_all
    then show ?thesis using apos by (simp add: q_def)
  qed
  have up: "V \<le> c * (1 + 4 / 2 ^ 53)"
  proof (rule ccontr)
    assume "\<not> V \<le> c * (1 + 4 / 2 ^ 53)"
    then have "c * (1 + 4 / 2 ^ 53) < V" by simp
    then have "c * (1 + 4 / 2 ^ 53) * a < V * a" using apos by (rule mult_strict_right_mono)
    moreover have "c * (1 + 4 / 2 ^ 53) * a = p * (1 + 4 / 2 ^ 53)" by (simp add: p_def)
    ultimately have "p * (1 + 4 / 2 ^ 53) < q" by (simp only: q_def)
    with p1 q2 show False by simp
  qed
  have lo: "c * (1 - 4 / 2 ^ 53) \<le> V"
  proof (rule ccontr)
    assume "\<not> c * (1 - 4 / 2 ^ 53) \<le> V"
    then have "V < c * (1 - 4 / 2 ^ 53)" by simp
    then have "V * a < c * (1 - 4 / 2 ^ 53) * a" using apos by (rule mult_strict_right_mono)
    moreover have "c * (1 - 4 / 2 ^ 53) * a = p * (1 - 4 / 2 ^ 53)" by (simp add: p_def)
    ultimately have "q < p * (1 - 4 / 2 ^ 53)" by (simp only: q_def)
    with p2 q1 show False by simp
  qed
  from lo up show ?thesis ..
qed

lemma pw2: "(2::real) powi (- 19) = 1 / 524288" "(2::real) powi 18 = 262144"
  "(2::real) powi (- 13) = 1 / 8192" "(2::real) powi 25 = 33554432" "(2::real) powi 0 = 1"
  by simp_all

lemma round_mag_100: "round_mag 100 = 100"
  by (simp add: fl_eval)

lemma engine_chain:
  assumes "valid_config config" "mat \<in> set materials"
  obtains c gv a b V r where
      "physics_cleanU config mat = Finite False c" "1 / 8 \<le> c" "c \<le> 32768"
      "val (fouling config) = gv" "0 \<le> gv" "gv \<le> 1 / 64"
      "a = round_mag (1 / c)" "1 / 32768 \<le> a" "a \<le> 8"
      "js_div (lit 1) (physics_cleanU config mat) = Finite False a"
      "b = round_mag (a + gv)" "1 / 32768 \<le> b" "b \<le> 16"
      "V = round_mag (1 / b)" "1 / 16 \<le> V" "V \<le> 32768"
      "physics_U config mat = Finite False V"
      "r = round_mag (V / c)" "1 / 524288 \<le> r" "r \<le> 262144"
      "physics_Efficiency config mat = Finite False (round_mag (r * 100))"
      "1 / 8192 \<le> round_mag (r * 100)"
proof -
  from cleanU_range [OF assms] obtain c where
    c: "physics_cleanU config mat = Finite False c" "1 / 8 \<le> c" "c \<le> 32768" by blast
  from valid_fouling [OF assms(1)] obtain t g where
    g: "fouling config = Finite t g" "0 \<le> val (Finite t g)" "val (Finite t g) \<le> 1 / 64" by blast
  define gv where "gv = val (Finite t g)"
  define a where "a = round_mag (1 / c)"
  define b where "b = round_mag (a + gv)"
  define V where "V = round_mag (1 / b)"
  define r where "r = round_mag (V / c)"
  have cpos: "0 < c" using c(2) by simp
  have ic1: "1 / 32768 \<le> 1 / c" using c(3) cpos by (simp add: field_simps)
  have ic2: "1 / c \<le> 8" using c(2) cpos by (simp add: field_simps)
  have "2 powi (- 15) \<le> 1 / c" using ic1 by (simp add: pw)
  then have "2 powi (- 15) \<le> a" unfolding a_def by (rule round_mag_ge_pow2) simp
  then have a1: "1 / 32768 \<le> a" by (simp add: pw)
  have "1 / c \<le> 2 powi 3" using ic2 by (simp add: pw)
  then have "a \<le> 2 powi 3" unfolding a_def by (rule round_mag_le_pow2) simp
  then have a2: "a \<le> 8" by (simp add: pw)
  have "1 / c \<le> 2 powi 1023" using ic2 by (intro big_bound) simp
  then have A: "js_div (lit 1) (physics_cleanU config mat) = Finite False a"
    using cpos by (simp add: c(1) lit_1 a_def fl_bounded)
  have s1: "1 / 32768 \<le> a + gv" using a1 g(2) by (simp add: gv_def)
  have s2: "a + gv \<le> 16" using a2 g(3) by (simp add: gv_def)
  have "2 powi (- 15) \<le> a + gv" using s1 by (simp add: pw)
  then have "2 powi (- 15) \<le> b" unfolding b_def by (rule round_mag_ge_pow2) simp
  then have b1: "1 / 32768 \<le> b" by (simp add: pw)
  have "a + gv \<le> 2 powi 4" using s2 by (simp add: pw)
  then have "b \<le> 2 powi 4" unfolding b_def by (rule round_mag_le_pow2) simp
  then have b2: "b \<le> 16" by (simp add: pw)
  have "a + val (Finite t g) \<le> 2 powi 1023" using s2 by (intro big_bound) (simp add: gv_def)
  moreover have "0 < a + val (Finite t g)" using s1 by (simp add: gv_def)
  ultimately have B: "js_add (Finite False a) (Finite t g) = Finite False b"
    unfolding b_def gv_def by (rule js_add_pos [rotated])
  have bpos: "0 < b" using b1 by simp
  have ib1: "1 / 16 \<le> 1 / b" using b2 bpos by (simp add: field_simps)
  have ib2: "1 / b \<le> 32768" using b1 bpos by (simp add: field_simps)
  have "2 powi (- 4) \<le> 1 / b" using ib1 by (simp add: pw)
  then have "2 powi (- 4) \<le> V" unfolding V_def by (rule round_mag_ge_pow2) simp
  then have V1: "1 / 16 \<le> V" by (simp add: pw)
  have "1 / b \<le> 2 powi 15" using ib2 by (simp add: pw)
  then have "V \<le> 2 powi 15" unfolding V_def by (rule round_mag_le_pow2) simp
  then have V2: "V \<le> 32768" by (simp add: pw)
  have "1 / b \<le> 2 powi 1023" using ib2 by (intro big_bound) simp
  then have "js_div (lit 1) (Finite False b) = Finite False V"
    using bpos by (simp add: lit_1 V_def fl_bounded)
  then have U: "physics_U config mat = Finite False V"
    using A B by (simp add: physics_U_def g(1))
  have q1: "1 / 524288 \<le> V / c"
  proof -
    have "1 / 16 * (1 / 32768) \<le> V * (1 / c)" using V1 ic1 by (intro mult_mono) simp_all
    then show ?thesis by simp
  qed
  have q2: "V / c \<le> 262144"
  proof -
    have "V * (1 / c) \<le> 32768 * 8" using V1 V2 ic2 cpos by (intro mult_mono) simp_all
    then show ?thesis by simp
  qed
  have "2 powi (- 19) \<le> V / c" using q1 by (simp add: pw2)
  then have "2 powi (- 19) \<le> r" unfolding r_def by (rule round_mag_ge_pow2) simp
  then have r1: "1 / 524288 \<le> r" by (simp add: pw2)
  have "V / c \<le> 2 powi 18" using q2 by (simp add: pw2)
  then have "r \<le> 2 powi 18" unfolding r_def by (rule round_mag_le_pow2) simp
  then have r2: "r \<le> 262144" by (simp add: pw2)
  have "V / c \<le> 2 powi 1023" using q2 by (intro big_bound) simp
  then have R: "js_div (Finite False V) (Finite False c) = Finite False r"
    using cpos by (simp add: r_def fl_bounded)
  have "r * 100 \<le> 2 powi 1023" using r2 by (intro big_bound) simp
  then have E: "physics_Efficiency config mat = Finite False (round_mag (r * 100))"
    using R by (simp add: physics_Efficiency_def U c(1) lit_100 fl_bounded)
  have "2 powi (- 13) \<le> r * 100" using r1 by (simp add: pw2)
  then have "2 powi (- 13) \<le> round_mag (r * 100)" by (rule round_mag_ge_pow2) simp
  then have e1: "1 / 8192 \<le> round_mag (r * 100)" by (simp add: pw2)
  have gv: "val (fouling config) = gv" by (simp add: gv_def g(1))
  have g2: "0 \<le> gv" "gv \<le> 1 / 64" using g(2,3) by (simp_all only: gv_def)
  show ?thesis
    by (rule that [OF c(1) c(2) c(3) gv g2(1) g2(2) a_def a1 a2 A b_def b1 b2 V_def V1 V2 U
          r_def r1 r2 E e1])
qed

lemma fouling_step:
  assumes "valid_config config" "num_le (lit (1 / 10000)) (fouling config)"
  shows "1 / 2 ^ 14 \<le> val (fouling config)"
proof -
  from valid_fouling [OF assms(1)] obtain t g where g: "fouling config = Finite t g" by blast
  with assms(2) have "7378697629483821 / 73786976294838206464 \<le> val (Finite t g)"
    by (simp add: lit_0_0001)
  then show ?thesis using g by simp
qed

lemma fouled_facts:
  assumes "valid_config config" "mat \<in> set materials"
    "num_le (lit (1 / 10000)) (fouling config)"
  obtains c V where "physics_cleanU config mat = Finite False c"
    "physics_U config mat = Finite False V" "0 < V" "V < c"
proof (rule engine_chain [OF assms(1,2)])
  fix c gv a b V r :: real
  assume c: "physics_cleanU config mat = Finite False c" "1 / 8 \<le> c" "c \<le> 32768"
    and gv: "val (fouling config) = gv" "0 \<le> gv" "gv \<le> 1 / 64"
    and a: "a = round_mag (1 / c)" "1 / 32768 \<le> a" "a \<le> 8"
    and b: "b = round_mag (a + gv)" "1 / 32768 \<le> b" "b \<le> 16"
    and V: "V = round_mag (1 / b)" "1 / 16 \<le> V" "V \<le> 32768"
      "physics_U config mat = Finite False V"
  have cpos: "0 < c" using c(2) by simp
  have bpos: "0 < b" using b(2) by simp
  have g14: "1 / 2 ^ 14 \<le> gv" using fouling_step [OF assms(1,3)] gv(1) by simp
  have cg: "1 / 2 ^ 17 \<le> c * gv"
  proof -
    have "1 / 8 * (1 / 2 ^ 14) \<le> c * gv" using c(2) g14 by (intro mult_mono) simp_all
    then show ?thesis by simp
  qed
  have "1 / 32768 \<le> 1 / c" using c(3) cpos by (simp add: field_simps)
  then have "1 / 2 ^ 64 \<le> 1 / c" by simp
  then have arel: "1 / c * (1 - 1 / 2 ^ 53) \<le> a" unfolding a(1) by (rule round_mag_rel_lower)
  have "1 / 2 ^ 64 \<le> a + gv" using a(2) gv(2) by simp
  then have brel: "(a + gv) * (1 - 1 / 2 ^ 53) \<le> b" unfolding b(1) by (rule round_mag_rel_lower)
  have "1 / 16 \<le> 1 / b" using b(3) bpos by (simp add: field_simps)
  then have "1 / 2 ^ 64 \<le> 1 / b" by simp
  then have Vrel: "V \<le> 1 / b * (1 + 1 / 2 ^ 53)" unfolding V(1) by (rule round_mag_rel_upper)
  have lt: "V < c" by (rule strict_core [OF cpos cg arel brel Vrel])
  have Vpos: "0 < V" using V(2) by simp
  show thesis by (rule that [OF c(1) V(4) Vpos lt])
qed

lemma cleaned_facts:
  assumes "valid_config config" "mat \<in> set materials" "val (fouling config) = 0"
  obtains c V where "physics_cleanU config mat = Finite False c" "0 < c"
    "physics_U config mat = Finite False V"
    "physics_U config mat = js_div (lit 1) (js_div (lit 1) (physics_cleanU config mat))"
    "c * (1 - 4 / 2 ^ 53) \<le> V" "V \<le> c * (1 + 4 / 2 ^ 53)"
    "physics_Efficiency config mat = Finite False (round_mag (round_mag (V / c) * 100))"
proof (rule engine_chain [OF assms(1,2)])
  fix c gv a b V r :: real
  assume c: "physics_cleanU config mat = Finite False c" "1 / 8 \<le> c" "c \<le> 32768"
    and gv: "val (fouling config) = gv"
    and a: "a = round_mag (1 / c)" "1 / 32768 \<le> a" "a \<le> 8"
      "js_div (lit 1) (physics_cleanU config mat) = Finite False a"
    and b: "b = round_mag (a + gv)"
    and V: "V = round_mag (1 / b)" "physics_U config mat = Finite False V"
    and r: "r = round_mag (V / c)"
      "physics_Efficiency config mat = Finite False (round_mag (r * 100))"
  have cpos: "0 < c" using c(2) by simp
  have apos: "0 < a" using a(2) by simp
  have "round_mag a = a" unfolding a(1) using cpos by (intro round_mag_idem) simp
  then have ba: "b = a" using b gv assms(3) by simp
  have "1 / 32768 \<le> 1 / c" using c(3) cpos by (simp add: field_simps)
  then have c64: "1 / 2 ^ 64 \<le> 1 / c" by simp
  have a1: "1 / c * (1 - 1 / 2 ^ 53) \<le> a" unfolding a(1) using c64 by (rule round_mag_rel_lower)
  have a2: "a \<le> 1 / c * (1 + 1 / 2 ^ 53)" unfolding a(1) using c64 by (rule round_mag_rel_upper)
  have ia: "1 / 8 \<le> 1 / a" "1 / a \<le> 32768" using a(2,3) apos by (simp_all add: field_simps)
  then have a64: "1 / 2 ^ 64 \<le> 1 / a" by simp
  have V1: "1 / a * (1 - 1 / 2 ^ 53) \<le> V"
    unfolding V(1) ba using a64 by (rule round_mag_rel_lower)
  have V2: "V \<le> 1 / a * (1 + 1 / 2 ^ 53)"
    unfolding V(1) ba using a64 by (rule round_mag_rel_upper)
  have "1 / a \<le> 2 powi 1023" using ia(2) by (intro big_bound) simp
  then have "js_div (lit 1) (Finite False a) = Finite False V"
    using apos by (simp add: lit_1 V(1) ba fl_bounded)
  then have f: "physics_U config mat = js_div (lit 1) (js_div (lit 1) (physics_cleanU config mat))"
    by (simp add: a(4) V(2))
  from close_core [OF cpos a1 a2 V1 V2]
  have cl: "c * (1 - 4 / 2 ^ 53) \<le> V" "V \<le> c * (1 + 4 / 2 ^ 53)" by blast+
  have E: "physics_Efficiency config mat = Finite False (round_mag (round_mag (V / c) * 100))"
    using r by simp
  show thesis by (rule that [OF c(1) cpos V(2) f cl(1) cl(2) E])
qed

lemma cleaned_efficiency:
  assumes c: "0 < c" and V: "c * (1 - 4 / 2 ^ 53) \<le> V" "V \<le> c * (1 + 4 / 2 ^ 53)"
  shows "\<bar>round_mag (round_mag (V / c) * 100) - 100\<bar> \<le> 1 / 10 ^ 12"
proof -
  define q where "q = V / c"
  define r where "r = round_mag q"
  have q1: "1 - 4 / 2 ^ 53 \<le> q" using V(1) c by (simp add: q_def field_simps)
  have q2: "q \<le> 1 + 4 / 2 ^ 53" using V(2) c by (simp add: q_def field_simps)
  have "1 / 2 ^ 64 \<le> q" using q1 by simp
  then have r1: "q * (1 - 1 / 2 ^ 53) \<le> r" and r2: "r \<le> q * (1 + 1 / 2 ^ 53)"
    unfolding r_def by (rule round_mag_rel_lower, rule round_mag_rel_upper)
  have "1 / 2 ^ 64 \<le> r * 100" using r1 q1 by simp
  then have e1: "r * 100 * (1 - 1 / 2 ^ 53) \<le> round_mag (r * 100)"
    and e2: "round_mag (r * 100) \<le> r * 100 * (1 + 1 / 2 ^ 53)"
    by (rule round_mag_rel_lower, rule round_mag_rel_upper)
  have rh: "r \<le> 1 + 6 / 2 ^ 53" using q2 r2 by (simp; linarith)
  have rl: "1 - 6 / 2 ^ 53 \<le> r" using q1 r1 by (simp; linarith)
  have eh: "round_mag (r * 100) \<le> 100 + 1 / 10 ^ 12" using rh e2 by (simp; linarith)
  have el: "100 - 1 / 10 ^ 12 \<le> round_mag (r * 100)" using rl e1 by (simp; linarith)
  have "\<bar>round_mag (r * 100) - 100\<bar> \<le> 1 / 10 ^ 12"
    using eh el unfolding abs_le_iff by (simp; linarith)
  then show ?thesis by (simp only: r_def q_def)
qed

lemma valid_initial: "valid_config initial_config"
  by (simp add: valid_config_def double_def initial_config_def lit_eval fl_eval)

lemma valid_clean_system:
  assumes "valid_config config"
  shows "valid_config (clean_system config)"
proof -
  have "double (Finite False 0)" by (simp add: double_def fl_eval)
  then show ?thesis using assms by (simp add: valid_config_def clean_system_def lit_eval)
qed

lemma copper_in_catalog: "materials ! 0 \<in> set materials"
  by (simp add: materials_def)

section \<open>The fallback of the logarithm\<close>

lemma pw3: "(2::real) powi 6 = 64" "(2::real) powi 8 = 256"
  by simp_all

lemma of_val_neg: "v < 0 \<Longrightarrow> of_val v = fl True (- v)"
  by (simp add: of_val_def)

lemma of_val_pos: "0 < v \<Longrightarrow> of_val v = fl False v"
  by (simp add: of_val_def)

lemma fl_not_zero:
  assumes "2 powi e \<le> x" "- 1022 \<le> e"
  shows "fl s x \<noteq> Finite t 0"
proof
  assume "fl s x = Finite t 0"
  then have "round_mag x = 0" by (simp add: fl_def Let_def split: if_splits)
  moreover have "0 < round_mag x"
    using round_mag_ge_pow2 [OF assms] zero_less_power_int [of "2::real" e] by linarith
  ultimately show False by simp
qed

lemma js_sub_val:
  assumes "a = Finite s x" "val a - y \<noteq> 0"
  shows "js_sub a (Finite False y) = of_val (val a - y)"
  using assms by (simp add: js_sub_def Let_def)

lemma zero_ratio_near_25:
  assumes a: "a = Finite st t"
    and z: "js_div (js_sub a (lit 25)) (lit 15) = Finite s 0"
  shows "\<bar>val a - 25\<bar> < 2 powi (- 1000)"
proof (rule ccontr)
  assume "\<not> \<bar>val a - 25\<bar> < 2 powi (- 1000)"
  then have big: "2 powi (- 1000) \<le> \<bar>val a - 25\<bar>" by (simp only: not_less)
  define v where "v = val a - 25"
  have p: "(0::real) < 2 powi (- 1000)" by (rule zero_less_power_int) simp
  have bv: "2 powi (- 1000) \<le> \<bar>v\<bar>" using big by (simp only: v_def)
  have v0: "v \<noteq> 0" using bv p by linarith
  have ne: "val a - 25 \<noteq> 0" using v0 unfolding v_def .
  have "js_sub a (Finite False 25) = of_val (val a - 25)" by (rule js_sub_val [OF a ne])
  then have sub: "js_sub a (lit 25) = fl (v < 0) \<bar>v\<bar>"
    by (simp only: lit_25 v_def of_val_def)
  show False
  proof (cases "fl (v < 0) \<bar>v\<bar>")
    case (Finite u d)
    then have d: "d = round_mag \<bar>v\<bar>" by (simp add: fl_def Let_def split: if_splits)
    have d1: "2 powi (- 1000) \<le> d" unfolding d using bv by (rule round_mag_ge_pow2) simp
    have "(2::real) powi (4 + (- 1004)) = 2 powi 4 * 2 powi (- 1004)"
      by (rule power_int_add) simp
    then have e: "(2::real) powi (- 1000) = 16 * 2 powi (- 1004)" by (simp only: pw) simp
    have h: "2 powi (- 1004) \<le> d / 15"
    proof -
      have "(0::real) < 2 powi (- 1004)" by (rule zero_less_power_int) simp
      with d1 e have "15 * 2 powi (- 1004) \<le> d" by linarith
      then show ?thesis by (simp only: le_divide_eq) simp
    qed
    have "fl (u \<noteq> False) (d / 15) \<noteq> Finite s 0" by (rule fl_not_zero [OF h]) simp
    moreover have "js_div (js_sub a (lit 25)) (lit 15) = fl (u \<noteq> False) (d / 15)"
      unfolding sub Finite lit_15 by simp
    ultimately show False using z by simp
  next
    case (Infinity u)
    then have "js_div (js_sub a (lit 25)) (lit 15) = Infinity (u \<noteq> False)"
      unfolding sub lit_15 by simp
    with z show False by simp
  next
    case NaN
    then have "js_div (js_sub a (lit 25)) (lit 15) = NaN" unfolding sub by simp
    with z show False by simp
  qed
qed

lemma zero_ratio_LMTD:
  assumes T: "tempIn config = Finite st t"
    and z: "js_div (js_sub (tempIn config) (lit 25)) (lit 15) = Finite s 0"
    and lg: "9 / 100 \<le> lg (val (lit (11 / 10)))" "lg (val (lit (11 / 10))) \<le> 11 / 100"
  shows "\<exists>y. physics_LMTD lg config = Finite True y \<and> 64 \<le> y \<and> y \<le> 256"
proof -
  define w where "w = val (tempIn config) - 40"
  have near: "\<bar>val (tempIn config) - 25\<bar> < 2 powi (- 1000)"
    using T z by (rule zero_ratio_near_25)
  have "(2::real) powi (- 1000) \<le> 2 powi 0" by (subst powi_le_iff) simp
  then have "(2::real) powi (- 1000) \<le> 1" by (simp only: power_int_0_right)
  then have "\<bar>val (tempIn config) - 25\<bar> < 1" using near by linarith
  then have w: "- 16 \<le> w" "w \<le> - 8" unfolding w_def by linarith+
  define m where "m = round_mag (- w)"
  have "- w \<le> 2 powi 1023" using w by (intro big_bound) simp
  then have "fl True (- w) = Finite True m" unfolding m_def by (rule fl_bounded)
  moreover have "js_sub (tempIn config) (lit 40) = of_val w"
    unfolding lit_40 w_def using w by (intro js_sub_val [OF T]) (simp add: w_def)
  ultimately have num: "js_sub (tempIn config) (lit 40) = Finite True m"
    using w by (simp add: of_val_neg)
  have "2 powi 3 \<le> - w" using w by (simp add: pw)
  then have "2 powi 3 \<le> m" unfolding m_def by (rule round_mag_ge_pow2) simp
  then have m1: "8 \<le> m" by (simp add: pw)
  have "- w \<le> 2 powi 4" using w by (simp add: pw)
  then have "m \<le> 2 powi 4" unfolding m_def by (rule round_mag_le_pow2) simp
  then have m2: "m \<le> 16" by (simp add: pw)
  define c where "c = lg (val (lit (11 / 10)))"
  define l where "l = round_mag c"
  have c: "9 / 100 \<le> c" "c \<le> 11 / 100" using lg by (simp_all only: c_def)
  have "c \<le> 2 powi 1023" using c by (intro big_bound) simp
  then have "fl False c = Finite False l" unfolding l_def by (rule fl_bounded)
  moreover have "Math_log lg (lit (11 / 10)) = of_val c"
    unfolding c_def by (simp add: lit_1_1)
  ultimately have den: "Math_log lg (lit (11 / 10)) = Finite False l"
    using c by (simp add: of_val_pos)
  have "2 powi (- 4) \<le> c" using c by (simp add: pw)
  then have "2 powi (- 4) \<le> l" unfolding l_def by (rule round_mag_ge_pow2) simp
  then have l1: "1 / 16 \<le> l" by (simp add: pw)
  have "c \<le> 2 powi (- 3)" using c by (simp add: pw)
  then have "l \<le> 2 powi (- 3)" unfolding l_def by (rule round_mag_le_pow2) simp
  then have l2: "l \<le> 1 / 8" by (simp add: pw)
  have lpos: "0 < l" using l1 by simp
  have q1: "64 \<le> m / l"
  proof -
    have "64 * l \<le> 8" using l2 by simp
    also have "8 \<le> m" by fact
    finally show ?thesis using lpos by (simp add: field_simps)
  qed
  have q2: "m / l \<le> 256"
  proof -
    have "m \<le> 16" by fact
    also have "16 \<le> 256 * l" using l1 by simp
    finally show ?thesis using lpos by (simp add: field_simps)
  qed
  have "m / l \<le> 2 powi 1023" using q2 by (intro big_bound) simp
  then have "fl True (m / l) = Finite True (round_mag (m / l))" by (rule fl_bounded)
  then have L: "js_div (Finite True m) (Finite False l) = Finite True (round_mag (m / l))"
    using lpos by simp
  have "2 powi 6 \<le> m / l" using q1 by (simp add: pw3)
  then have "2 powi 6 \<le> round_mag (m / l)" by (rule round_mag_ge_pow2) simp
  moreover have "m / l \<le> 2 powi 8" using q2 by (simp add: pw3)
  then have "round_mag (m / l) \<le> 2 powi 8" by (rule round_mag_le_pow2) simp
  moreover have "physics_LMTD lg config = Finite True (round_mag (m / l))"
  proof -
    have "js_or (js_div (js_sub (tempIn config) (lit 25)) (lit 15)) (lit (11 / 10)) = lit (11 / 10)"
      using z by (simp add: js_or_def)
    then have "physics_LMTD lg config = js_div (Finite True m) (Finite False l)"
      by (simp only: physics_LMTD_def num den)
    then show ?thesis using L by (rule trans)
  qed
  ultimately show ?thesis by (simp add: pw3)
qed

lemma positive_is_truthy: "num_less (lit 0) a \<Longrightarrow> ToBoolean a"
  by (cases a) (auto simp add: lit_0 split: if_splits)

lemma ln_1_1_bounds:
  "9 / 100 \<le> ln (val (lit (11 / 10)))" "ln (val (lit (11 / 10))) \<le> 11 / 100"
proof -
  define x :: real where "x = 225179981368525 / 2251799813685248"
  have v: "val (lit (11 / 10)) = 1 + x" by (simp add: lit_1_1 x_def)
  have x: "0 \<le> x" "x \<le> 1" by (simp_all add: x_def)
  have "x - x\<^sup>2 \<le> ln (1 + x)" using x by (rule ln_one_plus_pos_lower_bound)
  moreover have "9 / 100 \<le> x - x\<^sup>2" by (simp add: x_def power2_eq_square)
  ultimately show "9 / 100 \<le> ln (val (lit (11 / 10)))" unfolding v by linarith
  have "ln (1 + x) \<le> x" using x(1) by (rule ln_add_one_self_le_self)
  moreover have "x \<le> 11 / 100" by (simp add: x_def)
  ultimately show "ln (val (lit (11 / 10))) \<le> 11 / 100" unfolding v by linarith
qed

lemma ratio_at_25:
  "js_div (js_sub (tempIn (initial_config\<lparr>tempIn := lit 25\<rparr>)) (lit 25)) (lit 15) = Finite False 0"
  by (simp add: js_sub_def lit_eval fl_eval)

lemma ratio_initial:
  "num_less (lit 0) (js_div (js_sub (tempIn initial_config) (lit 25)) (lit 15))"
  by (simp add: initial_config_def js_sub_def lit_eval fl_eval)

section \<open>The order of the profile\<close>

lemma round_mag_zero: "round_mag 0 = 0"
  by (simp add: round_mag_def rne_def)

lemma fl_zero: "fl s 0 = Finite s 0"
  by (simp add: fl_def round_mag_zero)

lemma fl_cases:
  obtains "fl s x = Infinity s" | "fl s x = Finite s (round_mag x)" "round_mag x < 2 powi 1024"
  by (cases "2 powi 1024 \<le> round_mag x") (simp_all add: fl_def Let_def)

lemma double_fl: "0 \<le> x \<Longrightarrow> double (fl s x)"
  by (rule fl_cases [of s x]) (simp_all add: double_def round_mag_nonneg round_mag_idem)

lemma double_of_val: "double (of_val v)"
  by (simp add: of_val_def double_fl)

lemma double_Infinity: "double (Infinity s)"
  by (simp add: double_def)

lemma double_NaN: "double NaN"
  by (simp add: double_def)

lemma double_zero: "double (Finite s 0)"
  by (simp add: double_def round_mag_zero)

lemma double_FiniteD: "double (Finite s x) \<Longrightarrow> 0 \<le> x"
  by (simp add: double_def)

lemmas double_simps = double_Infinity double_NaN double_zero double_of_val double_fl

lemma double_js_add: "double (js_add a b)"
  by (cases a; cases b) (simp_all add: double_simps Let_def)

lemma double_js_sub: "double (js_sub a b)"
  by (simp add: js_sub_def double_js_add)

lemma double_js_mul:
  assumes "double a" "double b"
  shows "double (js_mul a b)"
proof (cases a)
  case a: (Finite s x)
  show ?thesis
  proof (cases b)
    case b: (Finite t y)
    have "0 \<le> x * y" using assms double_FiniteD unfolding a b by (intro mult_nonneg_nonneg) blast+
    then show ?thesis by (simp add: a b double_fl)
  qed (simp_all add: a double_simps)
next
  case (Infinity s)
  then show ?thesis by (cases b) (simp_all add: double_simps)
next
  case NaN
  then show ?thesis by (simp add: double_simps)
qed

lemma double_js_div:
  assumes "double a" "double b"
  shows "double (js_div a b)"
proof (cases a)
  case a: (Finite s x)
  show ?thesis
  proof (cases b)
    case b: (Finite t y)
    have "0 \<le> x / y" using assms double_FiniteD unfolding a b by (intro divide_nonneg_nonneg) blast+
    then show ?thesis by (simp add: a b double_simps)
  qed (simp_all add: a double_simps)
next
  case (Infinity s)
  then show ?thesis by (cases b) (simp_all add: double_simps)
next
  case NaN
  then show ?thesis by (simp add: double_simps)
qed

lemma double_Math_log: "double (Math_log lg a)"
  by (cases a) (simp_all add: double_simps)

lemma double_lit: "double (lit v)"
  by (simp add: lit_def double_of_val)

lemma double_Q:
  assumes "double (areaOverride config)"
  shows "double (physics_Q lg config mat)"
  unfolding physics_Q_def physics_U_def physics_LMTD_def
  by (intro double_js_div double_js_mul double_lit double_js_add double_js_sub double_Math_log assms)

lemma js_div_FiniteD: "js_div a b = Finite s q \<Longrightarrow> \<exists>t x. a = Finite t x"
  by (cases a; cases b) simp_all

lemma js_mul_FiniteD: "js_mul a b = Finite s q \<Longrightarrow> \<exists>t x. b = Finite t x"
  by (cases a; cases b) (simp_all split: if_splits)

lemma js_add_FiniteD: "js_add a b = Finite s q \<Longrightarrow> \<exists>t x. a = Finite t x"
  by (cases a; cases b) (simp_all split: if_splits)

lemma Q_Finite_tempIn:
  assumes "physics_Q lg config mat = Finite s q"
  shows "\<exists>t x. tempIn config = Finite t x"
proof -
  from assms obtain t1 x1 where
    "js_mul (js_mul (physics_U config mat) (areaOverride config)) (physics_LMTD lg config) = Finite t1 x1"
    unfolding physics_Q_def by (blast dest: js_div_FiniteD)
  then obtain t2 x2 where "physics_LMTD lg config = Finite t2 x2"
    by (blast dest: js_mul_FiniteD)
  then obtain t3 x3 where "js_sub (tempIn config) (lit 40) = Finite t3 x3"
    unfolding physics_LMTD_def by (blast dest: js_div_FiniteD)
  then show ?thesis unfolding js_sub_def by (rule js_add_FiniteD)
qed

lemma num_le_refl_fl: "num_le (fl s x) (fl s x)"
  by (rule fl_cases [of s x]) simp_all

lemma fl_mono_pos:
  assumes "x \<le> y"
  shows "num_le (fl False x) (fl False y)"
proof (rule fl_cases [of False y])
  assume y: "fl False y = Infinity False"
  show ?thesis by (rule fl_cases [of False x]) (simp_all add: y)
next
  assume y: "fl False y = Finite False (round_mag y)" "round_mag y < 2 powi 1024"
  have m: "round_mag x \<le> round_mag y" using assms by (rule round_mag_mono)
  with y(2) have "round_mag x < 2 powi 1024" by linarith
  then have "fl False x = Finite False (round_mag x)" by (rule fl_Finite)
  with y(1) m show ?thesis by simp
qed

lemma fl_mono_neg:
  assumes "x \<le> y"
  shows "num_le (fl True y) (fl True x)"
proof (rule fl_cases [of True y])
  assume y: "fl True y = Infinity True"
  show ?thesis by (rule fl_cases [of True x]) (simp_all add: y)
next
  assume y: "fl True y = Finite True (round_mag y)" "round_mag y < 2 powi 1024"
  have m: "round_mag x \<le> round_mag y" using assms by (rule round_mag_mono)
  with y(2) have "round_mag x < 2 powi 1024" by linarith
  then have "fl True x = Finite True (round_mag x)" by (rule fl_Finite)
  with y(1) m show ?thesis by simp
qed

lemma fl_neg_le_pos:
  assumes "0 \<le> x" "0 \<le> y"
  shows "num_le (fl True x) (fl False y)"
proof -
  have r: "0 \<le> round_mag x" "0 \<le> round_mag y" using assms by (simp_all add: round_mag_nonneg)
  show ?thesis
  proof (rule fl_cases [of True x])
    assume a: "fl True x = Infinity True"
    show ?thesis by (rule fl_cases [of False y]) (simp_all add: a)
  next
    assume a: "fl True x = Finite True (round_mag x)"
    show ?thesis by (rule fl_cases [of False y]) (insert r, simp_all add: a)
  qed
qed

lemma of_val_mono:
  assumes "v \<le> w"
  shows "num_le (of_val v) (of_val w)"
proof -
  consider "w < 0" | "v < 0" "0 \<le> w" | "0 \<le> v" by linarith
  then show ?thesis
  proof cases
    case 1
    with assms have "v < 0" "\<bar>w\<bar> \<le> \<bar>v\<bar>" by simp_all
    with 1 fl_mono_neg [of "\<bar>w\<bar>" "\<bar>v\<bar>"] show ?thesis by (simp add: of_val_def)
  next
    case 2
    with fl_neg_le_pos [of "\<bar>v\<bar>" "\<bar>w\<bar>"] show ?thesis by (simp add: of_val_def)
  next
    case 3
    with assms have "0 \<le> w" "\<bar>v\<bar> \<le> \<bar>w\<bar>" by simp_all
    with 3 fl_mono_pos [of "\<bar>v\<bar>" "\<bar>w\<bar>"] show ?thesis by (simp add: of_val_def)
  qed
qed

lemma of_val_zero: "of_val 0 = Finite False 0"
  by (simp add: of_val_def fl_zero)

lemma of_val_not_NaN: "of_val v \<noteq> NaN"
  unfolding of_val_def by (rule fl_cases [of "v < 0" "\<bar>v\<bar>"]) simp_all

lemma num_le_PInf: "num_le z (Infinity False) = (z \<noteq> NaN)"
  by (cases z) simp_all

lemma num_le_NInf: "num_le (Infinity True) z = (z \<noteq> NaN)"
  by (cases z) simp_all

lemma num_le_zero_left: "num_le (Finite u 0) c = num_le (Finite False 0) c"
  by (cases c) simp_all

lemma num_le_zero_right: "num_le c (Finite u 0) = num_le c (Finite False 0)"
  by (cases c) simp_all

lemma js_add_le_of_val:
  "num_le (js_add (Finite s x) (Finite t y)) c =
     num_le (of_val (val (Finite s x) + val (Finite t y))) c"
proof (cases "val (Finite s x) + val (Finite t y) = 0")
  case True
  then have "js_add (Finite s x) (Finite t y) = Finite (s \<and> t) 0" by (simp add: Let_def)
  then show ?thesis using True num_le_zero_left [of "s \<and> t" c] by (simp only: of_val_zero)
next
  case False
  then show ?thesis by (simp add: Let_def)
qed

lemma js_add_ge_of_val:
  "num_le c (js_add (Finite s x) (Finite t y)) =
     num_le c (of_val (val (Finite s x) + val (Finite t y)))"
proof (cases "val (Finite s x) + val (Finite t y) = 0")
  case True
  then have "js_add (Finite s x) (Finite t y) = Finite (s \<and> t) 0" by (simp add: Let_def)
  then show ?thesis using True num_le_zero_right [of c "s \<and> t"] by (simp only: of_val_zero)
next
  case False
  then show ?thesis by (simp add: Let_def)
qed

lemma js_add_Finite_not_NaN: "js_add (Finite s x) (Finite t y) \<noteq> NaN"
  by (simp add: Let_def of_val_not_NaN)

lemma js_add_mono_right:
  assumes "num_le b b'"
  shows "num_le (js_add (Finite s x) b) (js_add (Finite s x) b')"
proof (cases b)
  case b: (Finite t y)
  show ?thesis
  proof (cases b')
    case b': (Finite t' y')
    from assms have "val (Finite s x) + val (Finite t y) \<le> val (Finite s x) + val (Finite t' y')"
      unfolding b b' by simp
    then have "num_le (of_val (val (Finite s x) + val (Finite t y)))
        (of_val (val (Finite s x) + val (Finite t' y')))" by (rule of_val_mono)
    then show ?thesis unfolding b b' by (simp only: js_add_le_of_val js_add_ge_of_val)
  next
    case b': (Infinity u)
    with assms b have "\<not> u" by simp
    then show ?thesis
      unfolding b b' using js_add_Finite_not_NaN [of s x t y] by (simp add: num_le_PInf)
  next
    case NaN
    with assms b show ?thesis by simp
  qed
next
  case b: (Infinity u)
  show ?thesis
  proof (cases b')
    case b': (Finite t' y')
    with assms b have "u" by simp
    then show ?thesis
      unfolding b b' using js_add_Finite_not_NaN [of s x t' y'] by (simp add: num_le_NInf)
  next
    case b': (Infinity u')
    with assms b show ?thesis by simp
  next
    case NaN
    with assms b show ?thesis by simp
  qed
next
  case NaN
  with assms show ?thesis by simp
qed

lemma js_neg_antimono:
  assumes "num_le b b'"
  shows "num_le (js_neg b') (js_neg b)"
  using assms by (cases b; cases b') (auto split: if_splits)

lemma js_sub_antimono:
  assumes "num_le b b'"
  shows "num_le (js_sub (Finite s x) b') (js_sub (Finite s x) b)"
  unfolding js_sub_def by (rule js_add_mono_right [OF js_neg_antimono [OF assms]])

lemma js_mul_index_mono:
  assumes "i \<le> j" "0 \<le> r" "sq \<longrightarrow> r = 0"
  shows "num_le (js_mul (num_of_nat i) (Finite sq r)) (js_mul (num_of_nat j) (Finite sq r))"
proof (cases sq)
  case True
  with assms(3) show ?thesis by (simp add: num_of_nat_def num_le_refl_fl)
next
  case False
  have "real i * r \<le> real j * r" using assms(1,2) by (intro mult_right_mono) simp_all
  then have "num_le (fl False (real i * r)) (fl False (real j * r))" by (rule fl_mono_pos)
  with False show ?thesis by (simp add: num_of_nat_def)
qed

lemma js_div_const:
  assumes "double (Finite sq qv)" "sq \<longrightarrow> qv = 0" "1 \<le> d"
  shows "\<exists>r. js_div (Finite sq qv) (Finite False d) = Finite sq r \<and> 0 \<le> r \<and> (sq \<longrightarrow> r = 0)"
proof -
  from assms(1) have q: "0 \<le> qv" "qv < 2 powi 1024" "round_mag qv = qv"
    by (simp_all add: double_def)
  have "1 * qv \<le> d * qv" using q(1) assms(3) by (intro mult_right_mono) simp_all
  then have "qv / d \<le> qv" using assms(3) by (simp add: field_simps)
  then have "round_mag (qv / d) \<le> round_mag qv" by (rule round_mag_mono)
  with q have "round_mag (qv / d) < 2 powi 1024" by linarith
  then have "fl sq (qv / d) = Finite sq (round_mag (qv / d))" by (rule fl_Finite)
  moreover have "0 \<le> round_mag (qv / d)" using q(1) assms(3) by (intro round_mag_nonneg) simp
  moreover have "sq \<longrightarrow> round_mag (qv / d) = 0" using assms(2) by (simp add: round_mag_zero)
  ultimately show ?thesis using assms(3) by simp
qed

lemma num_le_Finite_val:
  assumes "a = Finite s x" "b = Finite t y"
  shows "num_le a b = (val a \<le> val b)"
  using assms by simp

lemma toFixed1_mono:
  assumes le: "num_le a b" and da: "double a" and db: "double b"
  shows "num_le (fixed_num (toFixed1 a)) (fixed_num (toFixed1 b))"
proof (cases a)
  case a: (Finite s x)
  have x: "0 \<le> x" using da unfolding a by (rule double_FiniteD)
  show ?thesis
  proof (cases b)
    case b: (Finite t y)
    have y: "0 \<le> y" using db unfolding b by (rule double_FiniteD)
    define G where "G = (\<lambda>z::real. if 10 ^ 21 \<le> z then z else real (nat \<lfloor>10 * z + 1 / 2\<rfloor>) / 10)"
    have G0: "G 0 = 0" by (simp add: G_def)
    have Gpos: "0 \<le> G u" if "0 \<le> u" for u using that by (simp add: G_def)
    have Gmono: "G u \<le> G v" if "0 \<le> u" "u \<le> v" for u v
    proof (cases "10 ^ 21 \<le> u")
      case True
      with that show ?thesis by (simp add: G_def)
    next
      case u: False
      have fu: "0 \<le> \<lfloor>10 * u + 1 / 2\<rfloor>" using that(1) by simp
      show ?thesis
      proof (cases "10 ^ 21 \<le> v")
        case True
        have "10 * u + 1 / 2 < 10 ^ 22 + 1" using u by simp
        then have "\<lfloor>10 * u + 1 / 2\<rfloor> < 10 ^ 22 + 1" by (simp add: floor_less_iff)
        then have "\<lfloor>10 * u + 1 / 2\<rfloor> \<le> 10 ^ 22" by simp
        then have "real_of_int \<lfloor>10 * u + 1 / 2\<rfloor> \<le> 10 ^ 22" by (simp only: of_int_le_numeral_power_cancel_iff)
        then have "real (nat \<lfloor>10 * u + 1 / 2\<rfloor>) / 10 \<le> 10 ^ 21" using fu by simp
        with True u show ?thesis by (simp add: G_def)
      next
        case False
        have "\<lfloor>10 * u + 1 / 2\<rfloor> \<le> \<lfloor>10 * v + 1 / 2\<rfloor>" using that(2) by (intro floor_mono) simp
        then have "nat \<lfloor>10 * u + 1 / 2\<rfloor> \<le> nat \<lfloor>10 * v + 1 / 2\<rfloor>" by simp
        then have "real (nat \<lfloor>10 * u + 1 / 2\<rfloor>) \<le> real (nat \<lfloor>10 * v + 1 / 2\<rfloor>)"
          by (simp only: of_nat_le_iff)
        with u False show ?thesis by (simp add: G_def)
      qed
    qed
    have form: "\<exists>f. fixed_num (toFixed1 (Finite u z)) = Finite f (G z)
        \<and> val (fixed_num (toFixed1 (Finite u z))) = (if u then - G z else G z)"
      if "0 \<le> z" for u z
      using that by (auto simp add: G_def)
    from form [OF x, of s] obtain f where
      A: "fixed_num (toFixed1 a) = Finite f (G x)"
        "val (fixed_num (toFixed1 a)) = (if s then - G x else G x)"
      unfolding a by blast
    from form [OF y, of t] obtain g where
      B: "fixed_num (toFixed1 b) = Finite g (G y)"
        "val (fixed_num (toFixed1 b)) = (if t then - G y else G y)"
      unfolding b by blast
    have v: "val a \<le> val b" using le unfolding a b by simp
    have "(if s then - G x else G x) \<le> (if t then - G y else G y)"
    proof (cases s; cases t)
      assume "s" "t"
      with v have "y \<le> x" by (simp add: a b)
      with Gmono [OF y] \<open>s\<close> \<open>t\<close> show ?thesis by simp
    next
      assume "s" "\<not> t"
      with Gpos [OF x] Gpos [OF y] show ?thesis by simp
    next
      assume "\<not> s" "t"
      with v x y have "x = 0" "y = 0" by (simp_all add: a b)
      with G0 \<open>\<not> s\<close> \<open>t\<close> show ?thesis by simp
    next
      assume "\<not> s" "\<not> t"
      with v have "x \<le> y" by (simp add: a b)
      with Gmono [OF x] \<open>\<not> s\<close> \<open>\<not> t\<close> show ?thesis by simp
    qed
    then have "val (fixed_num (toFixed1 a)) \<le> val (fixed_num (toFixed1 b))"
      by (simp only: A(2) B(2))
    then show ?thesis by (simp only: num_le_Finite_val [OF A(1) B(1)])
  next
    case b: (Infinity u)
    with le a have "\<not> u" by simp
    then show ?thesis unfolding a b by (simp add: num_le_PInf)
  next
    case NaN
    with le a show ?thesis by simp
  qed
next
  case a: (Infinity u)
  show ?thesis
  proof (cases b)
    case b: (Finite t y)
    with le a have "u" by simp
    then show ?thesis unfolding a b by (simp add: num_le_NInf)
  next
    case b: (Infinity u')
    with le a show ?thesis by simp
  next
    case NaN
    with le a show ?thesis by simp
  qed
next
  case NaN
  with le show ?thesis by simp
qed

lemma data_nth:
  assumes "i < 11"
  shows "Hot (data (physics lg config mat) ! i) =
      toFixed1 (js_sub (tempIn config)
        (js_mul (num_of_nat i) (js_div (physics_Q lg config mat) (lit 15))))"
    and "Cold (data (physics lg config mat) ! i) =
      toFixed1 (js_add (lit 25)
        (js_mul (num_of_nat i) (js_div (physics_Q lg config mat) (lit 25))))"
  using assms by (simp_all add: physics_def physics_data_def)

lemma fouling_initial:
  "fouling initial_config = Finite False (1152921504606847 / 2305843009213693952)"
  by (simp add: initial_config_def lit_eval)

lemma U_initial:
  "physics_U initial_config (materials ! 0) = Finite False (1467235150543015 / 1099511627776)"
  by (simp add: physics_U_def cleanU_initial fouling_initial lit_eval fl_eval)

lemma ratio_value_initial:
  "js_div (js_sub (tempIn initial_config) (lit 25)) (lit 15) =
     Finite False (4878899596318037 / 1125899906842624)"
  by (simp add: initial_config_def js_sub_def lit_eval fl_eval)

lemma LMTD_initial:
  "\<exists>l. physics_LMTD ln initial_config = Finite False l \<and> 8 \<le> l \<and> l \<le> 64"
proof -
  define rho :: real where "rho = 4878899596318037 / 1125899906842624"
  define c where "c = ln rho"
  define l0 where "l0 = round_mag c"
  have rho: "3 \<le> rho" "rho \<le> 5" by (simp_all add: rho_def)
  have "exp 1 \<le> rho" using exp_le rho(1) by linarith
  then have c1: "1 \<le> c" unfolding c_def using rho(1) by (simp add: ln_ge_iff)
  have "ln rho \<le> rho - 1" using rho(1) by (intro ln_le_minus_one) simp
  then have c2: "c \<le> 4" unfolding c_def using rho(2) by linarith
  have "c \<le> 2 powi 1023" using c2 by (intro big_bound) simp
  then have "fl False c = Finite False l0" unfolding l0_def by (rule fl_bounded)
  then have "of_val c = Finite False l0" using c1 by (simp add: of_val_pos)
  then have den: "Math_log ln (Finite False rho) = Finite False l0"
    using rho(1) by (simp add: c_def)
  have "2 powi 0 \<le> c" using c1 by simp
  then have "2 powi 0 \<le> l0" unfolding l0_def by (rule round_mag_ge_pow2) simp
  then have l1: "1 \<le> l0" by simp
  have "c \<le> 2 powi 2" using c2 by simp
  then have "l0 \<le> 2 powi 2" unfolding l0_def by (rule round_mag_le_pow2) simp
  then have l2: "l0 \<le> 4" by simp
  have num: "js_sub (tempIn initial_config) (lit 40) = Finite False 50"
    by (simp add: initial_config_def js_sub_def lit_eval fl_eval)
  have q1: "8 \<le> 50 / l0" using l1 l2 by (simp add: field_simps)
  have q2: "50 / l0 \<le> 64" using l1 l2 by (simp add: field_simps)
  have "50 / l0 \<le> 2 powi 1023" using q2 by (intro big_bound) simp
  then have "fl False (50 / l0) = Finite False (round_mag (50 / l0))" by (rule fl_bounded)
  moreover have "0 < l0" using l1 by simp
  ultimately have L: "js_div (Finite False 50) (Finite False l0) = Finite False (round_mag (50 / l0))"
    by simp
  have "js_or (js_div (js_sub (tempIn initial_config) (lit 25)) (lit 15)) (lit (11 / 10)) =
      Finite False rho"
    by (simp add: ratio_value_initial js_or_def rho_def)
  then have "physics_LMTD ln initial_config =
      js_div (Finite False 50) (Math_log ln (Finite False rho))"
    by (simp only: physics_LMTD_def num)
  then have "physics_LMTD ln initial_config = js_div (Finite False 50) (Finite False l0)"
    by (simp only: den)
  then have "physics_LMTD ln initial_config = Finite False (round_mag (50 / l0))"
    using L by (rule trans)
  moreover have "2 powi 3 \<le> 50 / l0" using q1 by simp
  then have "2 powi 3 \<le> round_mag (50 / l0)" by (rule round_mag_ge_pow2) simp
  moreover have "50 / l0 \<le> 2 powi 6" using q2 by simp
  then have "round_mag (50 / l0) \<le> 2 powi 6" by (rule round_mag_le_pow2) simp
  ultimately show ?thesis by simp
qed

lemma area_initial: "areaOverride initial_config = Finite False 15"
  by (simp add: initial_config_def lit_eval)

lemma Q_initial: "\<exists>q. physics_Q ln initial_config (materials ! 0) = Finite False q \<and> 0 \<le> q"
proof -
  from LMTD_initial obtain l where
    l: "physics_LMTD ln initial_config = Finite False l" "8 \<le> l" "l \<le> 64" by blast
  define x where "x = round_mag (1467235150543015 / 1099511627776 * 15)"
  have "(1467235150543015 / 1099511627776 * 15 :: real) \<le> 2 powi 15" by simp
  then have x2: "x \<le> 2 powi 15" unfolding x_def by (rule round_mag_le_pow2) simp
  have x0: "0 \<le> x" unfolding x_def by (rule round_mag_nonneg) simp
  have "(1467235150543015 / 1099511627776 * 15 :: real) \<le> 2 powi 1023" by (intro big_bound) simp
  then have "fl False (1467235150543015 / 1099511627776 * 15) = Finite False x"
    unfolding x_def by (rule fl_bounded)
  then have X: "js_mul (physics_U initial_config (materials ! 0)) (areaOverride initial_config) =
      Finite False x"
    by (simp add: U_initial area_initial)
  define y where "y = round_mag (x * l)"
  have xl: "0 \<le> x * l" "x * l \<le> 32768 * 64"
  proof -
    show "0 \<le> x * l" using x0 l(2) by simp
    have "x * l \<le> 32768 * 64" using x0 x2 l(2,3) by (intro mult_mono) simp_all
    then show "x * l \<le> 32768 * 64" .
  qed
  have "x * l \<le> 2 powi 21" using xl(2) by simp
  then have y2: "y \<le> 2 powi 21" unfolding y_def by (rule round_mag_le_pow2) simp
  have y0: "0 \<le> y" unfolding y_def using xl(1) by (rule round_mag_nonneg)
  have "x * l \<le> 2 powi 1023" using xl(2) by (intro big_bound) simp
  then have "fl False (x * l) = Finite False y" unfolding y_def by (rule fl_bounded)
  then have Y: "js_mul (Finite False x) (Finite False l) = Finite False y" by simp
  have "y / 1000 \<le> 2 powi 1023" using y2 y0 by (intro big_bound) simp
  then have "fl False (y / 1000) = Finite False (round_mag (y / 1000))" by (rule fl_bounded)
  then have "js_div (Finite False y) (Finite False 1000) = Finite False (round_mag (y / 1000))"
    by simp
  then have "physics_Q ln initial_config (materials ! 0) = Finite False (round_mag (y / 1000))"
    by (simp only: physics_Q_def X l(1) Y lit_1000)
  moreover have "0 \<le> round_mag (y / 1000)" using y0 by (intro round_mag_nonneg) simp
  ultimately show ?thesis by blast
qed


lemma area_infinite_area: "areaOverride infinite_area = Infinity False"
  by (simp add: infinite_area_def)

lemma Q_infinite_area: "physics_Q ln infinite_area (materials ! 0) = Infinity False"
proof -
  from LMTD_initial obtain l where
    l: "physics_LMTD ln initial_config = Finite False l" "8 \<le> l" "l \<le> 64" by blast
  have L: "physics_LMTD ln infinite_area = Finite False l"
    using l(1) by (simp add: physics_LMTD_def infinite_area_def)
  have "physics_U infinite_area (materials ! 0) = physics_U initial_config (materials ! 0)"
    by (simp add: physics_U_def physics_cleanU_def infinite_area_def)
  then have V: "physics_U infinite_area (materials ! 0) =
      Finite False (1467235150543015 / 1099511627776)"
    by (simp only: U_initial)
  have "l \<noteq> 0" using l(2) by simp
  then show ?thesis by (simp add: physics_Q_def V L area_infinite_area lit_1000)
qed

section \<open>Facts about concrete states\<close>

lemma LMTD_at_40: "physics_LMTD lg (initial_config\<lparr>tempIn := lit 40\<rparr>) = NaN"
  by (simp add: physics_LMTD_def config_eval lit_eval fl_eval)

lemma Q_of_NaN: "physics_LMTD lg config = NaN \<Longrightarrow> physics_Q lg config mat = NaN"
  by (simp add: physics_Q_def js_mul_NaN_right)

lemma data_of_NaN:
  "physics_Q lg config mat = NaN \<Longrightarrow>
     map Hot (physics_data lg config mat) = replicate 11 (Verbatim NaN) \<and>
     map Cold (physics_data lg config mat) = replicate 11 (Verbatim NaN)"
  by (simp add: physics_data_def js_mul_NaN_right js_sub_NaN_right js_add_NaN_right
      upt_rec numeral_eq_Suc)

lemma valid_at_40: "valid_config (initial_config\<lparr>tempIn := lit 40\<rparr>)"
  by (simp add: valid_config_def double_def initial_config_def lit_eval fl_eval)

lemma toFixed1_nearest:
  assumes "0 \<le> x" "x < 10 ^ 21"
  shows "\<exists>n. toFixed1 (Finite s x) = Tenths (s \<and> 0 < x) n \<and> \<bar>10 * x - real n\<bar> \<le> 1 / 2"
proof -
  let ?z = "\<lfloor>10 * x + 1 / 2\<rfloor>"
  have "0 \<le> ?z" using assms(1) by simp
  then have "real (nat ?z) = of_int ?z" by simp
  moreover have "of_int ?z \<le> 10 * x + 1 / 2" "10 * x + 1 / 2 < of_int ?z + 1"
    by linarith+
  ultimately have "\<bar>10 * x - real (nat ?z)\<bar> \<le> 1 / 2" by linarith
  then show ?thesis using assms(2) by auto
qed

lemma cleanU_zero_flow:
  "physics_cleanU (initial_config\<lparr>flow := lit 0\<rparr>) (materials ! 0) = Finite False 0"
  by (simp add: physics_cleanU_def config_eval lit_eval fl_eval)

lemma U_zero_flow:
  "physics_U (initial_config\<lparr>flow := lit 0\<rparr>) (materials ! 0) = Finite False 0"
  by (simp add: physics_U_def physics_cleanU_def config_eval lit_eval fl_eval)

section \<open>The claims\<close>

text \<open>
  Claim C1. For every configuration and material the engine computes the clean
  coefficient as \<open>(k / 0.05) * (flow / 50)\<close>, the overall coefficient as
  \<open>1 / ((1 / cleanU) + fouling)\<close> and the heat duty as \<open>(U * area * LMTD) / 1000\<close>:
  the constants of \<^verbatim>\<open>physics\<close> are the formulas of the specification, evaluated in the
  same order in binary64 arithmetic.
\<close>

theorem engine_formulas:
  "physics_cleanU config mat = cleanCoefficient_U0 (k mat) (flow config)
   \<and> U (physics lg config mat) =
       overallCoefficient_U (cleanCoefficient_U0 (k mat) (flow config)) (fouling config)
   \<and> Q (physics lg config mat) =
       heatDuty_kW (U (physics lg config mat)) (areaOverride config) (LMTD (physics lg config mat))"
  by (simp add: physics_def physics_cleanU_def physics_U_def physics_Q_def
      cleanCoefficient_U0_def overallCoefficient_U_def heatDuty_kW_def)

text \<open>
  Claim C2 says that no field of the result is NaN for a valid configuration. At the
  lower end of the inlet temperature slider, 40, the ratio \<open>(40 - 25) / 15\<close> is 1, its
  logarithm is \<open>+0\<close> and the numerator \<open>40 - 40\<close> is \<open>+0\<close>: LMTD is \<open>0 / 0\<close>, that is NaN,
  whatever the implementation of the logarithm and whatever the material, and the heat
  duty and all 22 profile temperatures are NaN with it.
\<close>

theorem NaN_at_minimum_inlet_temperature:
  "valid_config (initial_config\<lparr>tempIn := lit 40\<rparr>)
   \<and> LMTD (physics lg (initial_config\<lparr>tempIn := lit 40\<rparr>) mat) = NaN
   \<and> Q (physics lg (initial_config\<lparr>tempIn := lit 40\<rparr>) mat) = NaN
   \<and> map Hot (data (physics lg (initial_config\<lparr>tempIn := lit 40\<rparr>) mat)) = replicate 11 (Verbatim NaN)
   \<and> map Cold (data (physics lg (initial_config\<lparr>tempIn := lit 40\<rparr>) mat)) = replicate 11 (Verbatim NaN)"
  using data_of_NaN [OF Q_of_NaN [OF LMTD_at_40], of lg mat] Q_of_NaN [OF LMTD_at_40, of lg mat]
  by (simp add: physics_def LMTD_at_40 valid_at_40)

text \<open>
  Claim C3 as stated fails: at an inlet temperature of 10 the ratio
  \<open>(10 - 25) / 15\<close> is \<open>-1\<close>, which is negative and truthy, so \<^verbatim>\<open>||\<close> keeps it, the
  logarithm of a negative number is NaN, and LMTD is NaN.
\<close>

theorem negative_ratio_gives_NaN:
  "js_div (js_sub (tempIn (initial_config\<lparr>tempIn := lit 10\<rparr>)) (lit 25)) (lit 15) = Finite True 1
   \<and> physics_LMTD ln (initial_config\<lparr>tempIn := lit 10\<rparr>) = NaN"
  by (simp add: physics_LMTD_def config_eval lit_eval fl_eval)

text \<open>
  Claim C3, amended. Whenever the quantity \<open>(tempIn - 25) / 15\<close> is falsy, which a zero
  of either sign is, the engine takes the logarithm of the fallback 1.1 instead, and for
  a zero quantity LMTD is then a finite number, between -256 and -64 for an
  implementation whose \<^verbatim>\<open>Math.log(1.1)\<close> lies between 0.09 and 0.11. Whenever the
  quantity is positive the logarithm of the quantity itself is used.
\<close>

theorem LMTD_fallback_on_zero_ratio:
  "(\<not> ToBoolean (js_div (js_sub (tempIn config) (lit 25)) (lit 15)) \<longrightarrow>
      LMTD (physics lg config mat) =
        js_div (js_sub (tempIn config) (lit 40)) (Math_log lg (lit (11 / 10))))
   \<and> (num_less (lit 0) (js_div (js_sub (tempIn config) (lit 25)) (lit 15)) \<longrightarrow>
      LMTD (physics lg config mat) =
        js_div (js_sub (tempIn config) (lit 40))
          (Math_log lg (js_div (js_sub (tempIn config) (lit 25)) (lit 15))))
   \<and> ((\<exists>s. js_div (js_sub (tempIn config) (lit 25)) (lit 15) = Finite s 0)
        \<and> 9 / 100 \<le> lg (val (lit (11 / 10))) \<and> lg (val (lit (11 / 10))) \<le> 11 / 100 \<longrightarrow>
      (\<exists>y. LMTD (physics lg config mat) = Finite True y \<and> 64 \<le> y \<and> y \<le> 256))"
proof (intro conjI impI)
  assume "\<not> ToBoolean (js_div (js_sub (tempIn config) (lit 25)) (lit 15))"
  then show "LMTD (physics lg config mat) =
      js_div (js_sub (tempIn config) (lit 40)) (Math_log lg (lit (11 / 10)))"
    by (simp add: physics_def physics_LMTD_def js_or_def)
next
  assume "num_less (lit 0) (js_div (js_sub (tempIn config) (lit 25)) (lit 15))"
  then have "ToBoolean (js_div (js_sub (tempIn config) (lit 25)) (lit 15))"
    by (rule positive_is_truthy)
  then show "LMTD (physics lg config mat) =
      js_div (js_sub (tempIn config) (lit 40))
        (Math_log lg (js_div (js_sub (tempIn config) (lit 25)) (lit 15)))"
    by (simp add: physics_def physics_LMTD_def js_or_def)
next
  assume h: "(\<exists>s. js_div (js_sub (tempIn config) (lit 25)) (lit 15) = Finite s 0)
        \<and> 9 / 100 \<le> lg (val (lit (11 / 10))) \<and> lg (val (lit (11 / 10))) \<le> 11 / 100"
  then obtain s where z: "js_div (js_sub (tempIn config) (lit 25)) (lit 15) = Finite s 0"
    by blast
  have "\<exists>st t. tempIn config = Finite st t"
  proof (cases "tempIn config")
    case (Finite st t)
    then show ?thesis by simp
  next
    case (Infinity u)
    with z show ?thesis by (simp add: js_sub_def lit_25 lit_15)
  next
    case NaN
    with z show ?thesis by (simp add: js_sub_def)
  qed
  then obtain st t where T: "tempIn config = Finite st t" by blast
  from zero_ratio_LMTD [OF T z] h
  show "\<exists>y. LMTD (physics lg config mat) = Finite True y \<and> 64 \<le> y \<and> y \<le> 256"
    by (simp add: physics_def)
qed

text \<open>
  The hypotheses of the statement for C3 hold with the exact logarithm at an inlet
  temperature of 25, where the quantity is \<open>+0\<close>, and in the initial state, where it is
  positive.
\<close>

theorem LMTD_fallback_on_zero_ratio_witness:
  "\<not> ToBoolean (js_div (js_sub (tempIn (initial_config\<lparr>tempIn := lit 25\<rparr>)) (lit 25)) (lit 15))
   \<and> LMTD (physics ln (initial_config\<lparr>tempIn := lit 25\<rparr>) (materials ! 0)) =
        js_div (js_sub (tempIn (initial_config\<lparr>tempIn := lit 25\<rparr>)) (lit 40))
          (Math_log ln (lit (11 / 10)))
   \<and> 9 / 100 \<le> ln (val (lit (11 / 10))) \<and> ln (val (lit (11 / 10))) \<le> 11 / 100
   \<and> (\<exists>y. LMTD (physics ln (initial_config\<lparr>tempIn := lit 25\<rparr>) (materials ! 0)) = Finite True y
          \<and> 64 \<le> y \<and> y \<le> 256)
   \<and> num_less (lit 0) (js_div (js_sub (tempIn initial_config) (lit 25)) (lit 15))
   \<and> LMTD (physics ln initial_config (materials ! 0)) =
        js_div (js_sub (tempIn initial_config) (lit 40))
          (Math_log ln (js_div (js_sub (tempIn initial_config) (lit 25)) (lit 15)))"
proof -
  have f: "\<not> ToBoolean (js_div (js_sub (tempIn (initial_config\<lparr>tempIn := lit 25\<rparr>)) (lit 25)) (lit 15))"
    by (simp only: ratio_at_25) simp
  have e: "\<exists>s. js_div (js_sub (tempIn (initial_config\<lparr>tempIn := lit 25\<rparr>)) (lit 25)) (lit 15) = Finite s 0"
    using ratio_at_25 by blast
  from LMTD_fallback_on_zero_ratio [of "initial_config\<lparr>tempIn := lit 25\<rparr>" ln "materials ! 0"]
    LMTD_fallback_on_zero_ratio [of initial_config ln "materials ! 0"]
    f e ln_1_1_bounds ratio_initial
  show ?thesis by blast
qed

text \<open>
  Claim C4 as stated fails: in the initial state with the fouling factor reset to 0
  (copper, flow 25) the clean coefficient is 4010 and the overall coefficient
  \<open>1 / (1 / 4010 + 0)\<close> is rounded to 4010.0000000000005, which is larger.
\<close>

theorem clean_U_exceeds_cleanU:
  "valid_config (clean_system initial_config)
   \<and> fouling (clean_system initial_config) = lit 0
   \<and> num_less (physics_cleanU (clean_system initial_config) (materials ! 0))
        (physics_U (clean_system initial_config) (materials ! 0))"
  by (simp add: cleanU_cleaned U_cleaned valid_config_def double_def fouling_clean_system lit_eval)
    (simp add: config_eval lit_eval fl_eval)

text \<open>
  Claim C4, amended. For every valid configuration and every material of the catalog,
  the clean and the overall coefficient are finite and positive, and the overall
  coefficient is strictly below the clean coefficient whenever the fouling factor is at
  least 0.0001, one step of its slider. When the fouling factor is 0 the
  overall coefficient is \<open>1 / (1 / cleanU)\<close> in binary64 arithmetic, which is within a
  relative \<open>2 ^ - 51\<close> of the clean coefficient and need not be equal to it.
\<close>

theorem fouled_U_below_cleanU:
  assumes "valid_config config" and "mat \<in> set materials"
  shows "(\<exists>c u. physics_cleanU config mat = Finite False c \<and> 0 < c
             \<and> physics_U config mat = Finite False u \<and> 0 < u)
       \<and> (num_le (lit (1 / 10000)) (fouling config) \<longrightarrow>
            num_less (physics_U config mat) (physics_cleanU config mat))
       \<and> (val (fouling config) = 0 \<longrightarrow>
            physics_U config mat = js_div (lit 1) (js_div (lit 1) (physics_cleanU config mat))
            \<and> \<bar>val (physics_U config mat) - val (physics_cleanU config mat)\<bar>
                \<le> val (physics_cleanU config mat) / 2 ^ 51)"
proof (intro conjI impI)
  show "\<exists>c u. physics_cleanU config mat = Finite False c \<and> 0 < c
      \<and> physics_U config mat = Finite False u \<and> 0 < u"
  proof (rule engine_chain [OF assms])
    fix c V :: real
    assume "physics_cleanU config mat = Finite False c" "1 / 8 \<le> c"
      "physics_U config mat = Finite False V" "1 / 16 \<le> V"
    then show ?thesis by simp
  qed
next
  assume h: "num_le (lit (1 / 10000)) (fouling config)"
  show "num_less (physics_U config mat) (physics_cleanU config mat)"
  proof (rule fouled_facts [OF assms h])
    fix c V :: real
    assume "physics_cleanU config mat = Finite False c" "physics_U config mat = Finite False V"
      "V < c"
    then show ?thesis by simp
  qed
next
  assume h: "val (fouling config) = 0"
  show "physics_U config mat = js_div (lit 1) (js_div (lit 1) (physics_cleanU config mat))"
    by (rule cleaned_facts [OF assms h])
next
  assume h: "val (fouling config) = 0"
  show "\<bar>val (physics_U config mat) - val (physics_cleanU config mat)\<bar>
          \<le> val (physics_cleanU config mat) / 2 ^ 51"
  proof (rule cleaned_facts [OF assms h])
    fix c V :: real
    assume "physics_cleanU config mat = Finite False c" "physics_U config mat = Finite False V"
      and b: "c * (1 - 4 / 2 ^ 53) \<le> V" "V \<le> c * (1 + 4 / 2 ^ 53)"
    moreover have "\<bar>V - c\<bar> \<le> c / 2 ^ 51"
      using b unfolding abs_le_iff by (simp; linarith)
    ultimately show ?thesis by simp
  qed
qed

text \<open>
  The hypotheses of the statement for C4 hold in the initial state with copper (fouling
  factor 0.0005) and in the initial state after the reset (fouling factor 0).
\<close>

theorem fouled_U_below_cleanU_witness:
  "valid_config initial_config \<and> materials ! 0 \<in> set materials
   \<and> num_le (lit (1 / 10000)) (fouling initial_config)
   \<and> num_less (physics_U initial_config (materials ! 0)) (physics_cleanU initial_config (materials ! 0))
   \<and> valid_config (clean_system initial_config)
   \<and> val (fouling (clean_system initial_config)) = 0
   \<and> \<bar>val (physics_U (clean_system initial_config) (materials ! 0))
        - val (physics_cleanU (clean_system initial_config) (materials ! 0))\<bar>
        \<le> val (physics_cleanU (clean_system initial_config) (materials ! 0)) / 2 ^ 51"
proof -
  have s: "num_le (lit (1 / 10000)) (fouling initial_config)"
    by (simp add: initial_config_def lit_eval lit_0_0001)
  have z: "val (fouling (clean_system initial_config)) = 0"
    by (simp add: fouling_clean_system)
  note v = valid_initial valid_clean_system [OF valid_initial] copper_in_catalog
  from fouled_U_below_cleanU [OF v(1) v(3)] fouled_U_below_cleanU [OF v(2) v(3)] s z v
  show ?thesis by blast
qed

text \<open>
  Claim C5 as stated fails: in the same state the efficiency is 100.00000000000003,
  which is above 100 although the fouling factor is 0.
\<close>

theorem clean_Efficiency_exceeds_100:
  "valid_config (clean_system initial_config)
   \<and> fouling (clean_system initial_config) = lit 0
   \<and> Efficiency (physics ln (clean_system initial_config) (materials ! 0)) \<noteq> lit 100
   \<and> num_less (lit 100) (Efficiency (physics ln (clean_system initial_config) (materials ! 0)))"
  by (simp add: physics_def Efficiency_cleaned valid_config_def double_def fouling_clean_system lit_eval)
    (simp add: config_eval lit_eval fl_eval)

text \<open>
  Claim C5, amended. The efficiency is \<open>(U / cleanU) * 100\<close> in binary64 arithmetic. For
  every valid configuration and every material of the catalog it is a finite number above
  0; it is at most 100 whenever the fouling factor is at least 0.0001; and when the
  fouling factor is 0 it is within \<open>10 ^ - 12\<close> of 100, and need not be equal to 100.
\<close>

theorem efficiency_range:
  assumes "valid_config config" and "mat \<in> set materials"
  shows "Efficiency (physics lg config mat) =
           js_mul (js_div (U (physics lg config mat)) (physics_cleanU config mat)) (lit 100)
       \<and> (\<exists>e. Efficiency (physics lg config mat) = Finite False e \<and> 0 < e
             \<and> (num_le (lit (1 / 10000)) (fouling config) \<longrightarrow> e \<le> 100)
             \<and> (val (fouling config) = 0 \<longrightarrow> \<bar>e - 100\<bar> \<le> 1 / 10 ^ 12))"
proof (rule engine_chain [OF assms])
  fix c gv a b V r :: real
  assume c: "physics_cleanU config mat = Finite False c" "1 / 8 \<le> c"
    and V: "physics_U config mat = Finite False V"
    and r: "r = round_mag (V / c)"
    and E: "physics_Efficiency config mat = Finite False (round_mag (r * 100))"
      "1 / 8192 \<le> round_mag (r * 100)"
  have cpos: "0 < c" using c(2) by simp
  have f: "Efficiency (physics lg config mat) =
      js_mul (js_div (U (physics lg config mat)) (physics_cleanU config mat)) (lit 100)"
    by (simp add: physics_def physics_Efficiency_def)
  have pos: "0 < round_mag (r * 100)" using E(2) by simp
  have le: "round_mag (r * 100) \<le> 100" if h: "num_le (lit (1 / 10000)) (fouling config)"
  proof (rule fouled_facts [OF assms h])
    fix c' V' :: real
    assume "physics_cleanU config mat = Finite False c'" "physics_U config mat = Finite False V'"
      "V' < c'"
    with c(1) V have "V < c" by simp
    then have "V / c \<le> 2 powi 0" using cpos by (simp add: field_simps)
    then have "r \<le> 2 powi 0" unfolding r by (rule round_mag_le_pow2) simp
    then have "r * 100 \<le> 100" by simp
    then have "round_mag (r * 100) \<le> round_mag 100" by (rule round_mag_mono)
    then show ?thesis by (simp add: round_mag_100)
  qed
  have cl: "\<bar>round_mag (r * 100) - 100\<bar> \<le> 1 / 10 ^ 12" if h: "val (fouling config) = 0"
  proof (rule cleaned_facts [OF assms h])
    fix c' V' :: real
    assume "physics_cleanU config mat = Finite False c'" "physics_U config mat = Finite False V'"
      and b: "c' * (1 - 4 / 2 ^ 53) \<le> V'" "V' \<le> c' * (1 + 4 / 2 ^ 53)"
    with c(1) V have "c * (1 - 4 / 2 ^ 53) \<le> V" "V \<le> c * (1 + 4 / 2 ^ 53)" by simp_all
    from cleaned_efficiency [OF cpos this] show ?thesis by (simp only: r)
  qed
  have "Efficiency (physics lg config mat) = Finite False (round_mag (r * 100))"
    using E(1) by (simp add: physics_def)
  with pos le cl have "\<exists>e. Efficiency (physics lg config mat) = Finite False e \<and> 0 < e
             \<and> (num_le (lit (1 / 10000)) (fouling config) \<longrightarrow> e \<le> 100)
             \<and> (val (fouling config) = 0 \<longrightarrow> \<bar>e - 100\<bar> \<le> 1 / 10 ^ 12)"
    by blast
  with f show ?thesis ..
qed

text \<open>
  The hypotheses of the statement for C5 hold in the initial state with copper and in the
  initial state after the reset.
\<close>

theorem efficiency_range_witness:
  "valid_config initial_config \<and> materials ! 0 \<in> set materials
   \<and> num_le (lit (1 / 10000)) (fouling initial_config)
   \<and> (\<exists>e. Efficiency (physics ln initial_config (materials ! 0)) = Finite False e \<and> 0 < e \<and> e \<le> 100)
   \<and> valid_config (clean_system initial_config)
   \<and> val (fouling (clean_system initial_config)) = 0
   \<and> (\<exists>e. Efficiency (physics ln (clean_system initial_config) (materials ! 0)) = Finite False e
          \<and> \<bar>e - 100\<bar> \<le> 1 / 10 ^ 12)"
proof -
  have s: "num_le (lit (1 / 10000)) (fouling initial_config)"
    by (simp add: initial_config_def lit_eval lit_0_0001)
  have z: "val (fouling (clean_system initial_config)) = 0"
    by (simp add: fouling_clean_system)
  note v = valid_initial valid_clean_system [OF valid_initial] copper_in_catalog
  from efficiency_range [OF v(1) v(3), of ln] efficiency_range [OF v(2) v(3), of ln] s z v
  show ?thesis by blast
qed

text \<open>
  Claim C6. For every configuration and material the profile has exactly 11 entries,
  their \<^verbatim>\<open>dist\<close> fields are 0 to 10 in increasing order, and entry \<open>i\<close> holds
  \<open>tempIn - i * (Q / 15)\<close> and \<open>25 + i * (Q / 25)\<close>, each printed by \<^verbatim>\<open>toFixed(1)\<close>, which
  for a finite value of magnitude below \<open>10 ^ 21\<close> prints the nearest number of
  tenths.
\<close>

theorem profile_shape:
  "length (data (physics lg config mat)) = 11
   \<and> map dist (data (physics lg config mat)) = [0, 1, 2, 3, 4, 5, 6, 7, 8, 9, 10]
   \<and> (\<forall>i<11. data (physics lg config mat) ! i =
         \<lparr>dist = i,
          Hot = toFixed1 (js_sub (tempIn config)
                  (js_mul (num_of_nat i) (js_div (Q (physics lg config mat)) (lit 15)))),
          Cold = toFixed1 (js_add (lit 25)
                  (js_mul (num_of_nat i) (js_div (Q (physics lg config mat)) (lit 25))))\<rparr>)
   \<and> (\<forall>s x. 0 \<le> x \<and> x < 10 ^ 21 \<longrightarrow>
         (\<exists>n. toFixed1 (Finite s x) = Tenths (s \<and> 0 < x) n \<and> \<bar>10 * x - real n\<bar> \<le> 1 / 2))"
proof -
  have "map dist (physics_data lg config mat) = [0..<11]"
    by (simp add: physics_data_def comp_def)
  also have "[0..<11] = [0, 1, 2, 3, 4, 5, 6, 7, 8, 9, 10::nat]"
    by (simp add: upt_rec numeral_eq_Suc)
  finally have d: "map dist (physics_data lg config mat) = [0, 1, 2, 3, 4, 5, 6, 7, 8, 9, 10]" .
  have e: "\<forall>i<11. physics_data lg config mat ! i =
         \<lparr>dist = i,
          Hot = toFixed1 (js_sub (tempIn config)
                  (js_mul (num_of_nat i) (js_div (physics_Q lg config mat) (lit 15)))),
          Cold = toFixed1 (js_add (lit 25)
                  (js_mul (num_of_nat i) (js_div (physics_Q lg config mat) (lit 25))))\<rparr>"
    by (simp add: physics_data_def)
  have l: "length (physics_data lg config mat) = 11"
    by (simp add: physics_data_def)
  show ?thesis
    using d e l toFixed1_nearest by (simp add: physics_def)
qed

text \<open>
  The hypotheses of the statement for C6 hold at entry 3 of the profile of the initial
  state and at the value 4.56.
\<close>

theorem profile_shape_witness:
  "(3::nat) < 11
   \<and> dist (data (physics ln initial_config (materials ! 0)) ! 3) = 3
   \<and> (0::real) \<le> 456 / 100 \<and> (456 / 100 :: real) < 10 ^ 21
   \<and> (\<exists>n. toFixed1 (Finite False (456 / 100)) = Tenths False n \<and> \<bar>10 * (456 / 100) - real n\<bar> \<le> 1 / 2)"
proof -
  have a: "(3::nat) < 11" by simp
  have b: "(0::real) \<le> 456 / 100 \<and> (456 / 100 :: real) < 10 ^ 21" by simp
  from profile_shape [of ln initial_config "materials ! 0"]
  have c: "data (physics ln initial_config (materials ! 0)) ! 3 =
         \<lparr>dist = 3,
          Hot = toFixed1 (js_sub (tempIn initial_config)
                  (js_mul (num_of_nat 3) (js_div (Q (physics ln initial_config (materials ! 0))) (lit 15)))),
          Cold = toFixed1 (js_add (lit 25)
                  (js_mul (num_of_nat 3) (js_div (Q (physics ln initial_config (materials ! 0))) (lit 25))))\<rparr>"
    and d: "\<exists>n. toFixed1 (Finite False (456 / 100)) = Tenths (False \<and> (0::real) < 456 / 100) n
              \<and> \<bar>10 * (456 / 100) - real n\<bar> \<le> 1 / 2"
    using a b by blast+
  from c have "dist (data (physics ln initial_config (materials ! 0)) ! 3) = 3" by simp
  with a b d show ?thesis by simp
qed

text \<open>
  Claim C7 as stated fails: with a mass flow rate of 0, which is not strictly positive,
  the engine does not reject; it returns a result whose efficiency is NaN.
\<close>

theorem zero_flow_is_not_rejected:
  "physics_outcome ln (initial_config\<lparr>flow := lit 0\<rparr>) (materials ! 0) \<noteq> Inl DomainError
   \<and> \<not> num_less (lit 0) (flow (initial_config\<lparr>flow := lit 0\<rparr>))
   \<and> Efficiency (physics ln (initial_config\<lparr>flow := lit 0\<rparr>) (materials ! 0)) = NaN"
  using cleanU_zero_flow U_zero_flow
  by (simp add: physics_outcome_def physics_def physics_Efficiency_def lit_eval)

text \<open>
  Claim C7, amended. The engine validates nothing: for every input, also one whose
  conductivity, flow or area is zero, negative or not finite, the call returns a
  result and never delivers a \<open>DomainError\<close>.
\<close>

theorem engine_never_rejects:
  "physics_outcome lg config mat = Inr (physics lg config mat)
   \<and> physics_outcome lg config mat \<noteq> Inl DomainError"
  by (simp add: physics_outcome_def)

text \<open>
  Claim C8. Two configurations that differ only in the \<^verbatim>\<open>model\<close> field give the same
  result: the engine never reads the selector.
\<close>

theorem model_selector_has_no_effect:
  "physics lg (config\<lparr>model := m\<rparr>) mat = physics lg config mat"
  by (simp add: physics_def physics_Q_def physics_LMTD_def physics_U_def physics_data_def
      physics_cleanU_def physics_Efficiency_def)

text \<open>
  Claim C9 as stated fails: the initial state has a fouling factor above 0, and after
  the reset the recomputed efficiency is 100.00000000000003, not 100.
\<close>

theorem reset_Efficiency_not_100:
  "num_less (lit 0) (fouling initial_config)
   \<and> fouling (clean_system initial_config) = lit 0
   \<and> Efficiency (physics ln (clean_system initial_config) (materials ! 0)) =
       Finite False (3518437208883201 / 35184372088832)
   \<and> Efficiency (physics ln (clean_system initial_config) (materials ! 0)) \<noteq> lit 100"
  by (simp add: physics_def Efficiency_cleaned fouling_clean_system lit_eval)
    (simp add: config_eval lit_eval fl_eval)

text \<open>
  Claim C9, amended. For every configuration the reset gives a configuration whose
  fouling factor is 0 and whose other fields are unchanged; for a valid configuration and
  a material of the catalog the efficiency recomputed on it is within \<open>10 ^ - 12\<close> of
  100, and need not be equal to 100.
\<close>

theorem clean_system_frame:
  "fouling (clean_system config) = lit 0
   \<and> model (clean_system config) = model config
   \<and> tempIn (clean_system config) = tempIn config
   \<and> flow (clean_system config) = flow config
   \<and> length_m (clean_system config) = length_m config
   \<and> radius (clean_system config) = radius config
   \<and> areaOverride (clean_system config) = areaOverride config
   \<and> (valid_config config \<and> mat \<in> set materials \<longrightarrow>
        (\<exists>e. Efficiency (physics lg (clean_system config) mat) = Finite False e
           \<and> \<bar>e - 100\<bar> \<le> 1 / 10 ^ 12))"
proof -
  have "\<exists>e. Efficiency (physics lg (clean_system config) mat) = Finite False e
           \<and> \<bar>e - 100\<bar> \<le> 1 / 10 ^ 12"
    if v: "valid_config config" and m: "mat \<in> set materials"
  proof (rule cleaned_facts [OF valid_clean_system [OF v] m])
    show "val (fouling (clean_system config)) = 0" by (simp add: fouling_clean_system)
  next
    fix c V :: real
    assume c: "0 < c" and b: "c * (1 - 4 / 2 ^ 53) \<le> V" "V \<le> c * (1 + 4 / 2 ^ 53)"
      and E: "physics_Efficiency (clean_system config) mat =
          Finite False (round_mag (round_mag (V / c) * 100))"
    from cleaned_efficiency [OF c b] E show ?thesis by (simp add: physics_def)
  qed
  then show ?thesis by (simp add: clean_system_def)
qed

text \<open>
  The hypotheses of the statement for C9 hold in the initial state with copper.
\<close>

theorem clean_system_frame_witness:
  "valid_config initial_config \<and> materials ! 0 \<in> set materials
   \<and> fouling (clean_system initial_config) = lit 0
   \<and> (\<exists>e. Efficiency (physics ln (clean_system initial_config) (materials ! 0)) = Finite False e
          \<and> \<bar>e - 100\<bar> \<le> 1 / 10 ^ 12)"
  using clean_system_frame [of initial_config "materials ! 0" ln] valid_initial copper_in_catalog
  by blast

text \<open>
  Claim C10 as stated fails: with an infinite exchanger area the heat duty is
  \<open>+Infinity\<close>, which is not negative, and the hot temperatures are the text
  \<^verbatim>\<open>NaN\<close> at entry 0 and \<^verbatim>\<open>-Infinity\<close> from entry 1 on.
\<close>

theorem infinite_Q_profile_not_monotone:
  "double (areaOverride infinite_area)
   \<and> num_le (lit 0) (Q (physics ln infinite_area (materials ! 0)))
   \<and> Hot (data (physics ln infinite_area (materials ! 0)) ! 0) = Verbatim NaN
   \<and> Hot (data (physics ln infinite_area (materials ! 0)) ! 1) = Verbatim (Infinity True)
   \<and> \<not> num_le (fixed_num (Hot (data (physics ln infinite_area (materials ! 0)) ! 1)))
        (fixed_num (Hot (data (physics ln infinite_area (materials ! 0)) ! 0)))"
proof -
  have q: "Q (physics ln infinite_area (materials ! 0)) = Infinity False"
    by (simp add: physics_def Q_infinite_area)
  have t: "tempIn infinite_area = Finite False 90"
    by (simp add: infinite_area_def initial_config_def lit_eval)
  have h0: "Hot (data (physics ln infinite_area (materials ! 0)) ! 0) = Verbatim NaN"
    by (simp add: data_nth(1) Q_infinite_area t lit_15 num_of_nat_def js_sub_def)
  have h1: "Hot (data (physics ln infinite_area (materials ! 0)) ! 1) = Verbatim (Infinity True)"
    by (simp add: data_nth(1) Q_infinite_area t lit_15 num_of_nat_def js_sub_def)
  show ?thesis
    using q h0 h1 by (simp add: lit_0 area_infinite_area double_Infinity)
qed

text \<open>
  Claim C10, amended. For every configuration whose exchanger area is a Number and every
  material, if the computed heat duty is finite and not negative, then the hot
  temperatures of the profile do not increase and the cold temperatures do not decrease
  from one entry to a later one, read as the numbers that the texts denote.
\<close>

theorem profile_monotone:
  assumes area: "double (areaOverride config)"
    and nonneg: "num_le (lit 0) (Q (physics lg config mat))"
    and finite: "Q (physics lg config mat) \<noteq> Infinity False"
  shows "\<forall>i j. i \<le> j \<and> j < 11 \<longrightarrow>
      num_le (fixed_num (Hot (data (physics lg config mat) ! j)))
        (fixed_num (Hot (data (physics lg config mat) ! i)))
      \<and> num_le (fixed_num (Cold (data (physics lg config mat) ! i)))
        (fixed_num (Cold (data (physics lg config mat) ! j)))"
proof (intro allI impI)
  fix i j :: nat
  assume ij: "i \<le> j \<and> j < 11"
  then have i: "i < 11" and j: "j < 11" and le: "i \<le> j" by simp_all
  have Qeq: "Q (physics lg config mat) = physics_Q lg config mat" by (simp add: physics_def)
  obtain sq qv where Qf: "physics_Q lg config mat = Finite sq qv"
    using nonneg finite unfolding Qeq by (cases "physics_Q lg config mat") (auto simp add: lit_0)
  have dq: "double (Finite sq qv)" using double_Q [OF area, of lg mat] by (simp only: Qf)
  have "0 \<le> val (Finite sq qv)" using nonneg unfolding Qeq Qf by (simp add: lit_0)
  moreover have "0 \<le> qv" using dq by (rule double_FiniteD)
  ultimately have z: "sq \<longrightarrow> qv = 0" by (auto split: if_splits)
  from Q_Finite_tempIn [OF Qf] obtain st t where T: "tempIn config = Finite st t" by blast
  from js_div_const [OF dq z, of 15] obtain r15 where
    r15: "js_div (physics_Q lg config mat) (Finite False 15) = Finite sq r15" "0 \<le> r15"
      "sq \<longrightarrow> r15 = 0"
    unfolding Qf by auto
  from js_div_const [OF dq z, of 25] obtain r25 where
    r25: "js_div (physics_Q lg config mat) (Finite False 25) = Finite sq r25" "0 \<le> r25"
      "sq \<longrightarrow> r25 = 0"
    unfolding Qf by auto
  have "num_le (js_mul (num_of_nat i) (Finite sq r15)) (js_mul (num_of_nat j) (Finite sq r15))"
    using le r15(2,3) by (rule js_mul_index_mono)
  then have "num_le (js_sub (Finite st t) (js_mul (num_of_nat j) (Finite sq r15)))
      (js_sub (Finite st t) (js_mul (num_of_nat i) (Finite sq r15)))"
    by (rule js_sub_antimono)
  then have hot: "num_le (fixed_num (Hot (data (physics lg config mat) ! j)))
      (fixed_num (Hot (data (physics lg config mat) ! i)))"
    unfolding data_nth(1) [OF i] data_nth(1) [OF j] T lit_15 r15(1)
    by (rule toFixed1_mono) (rule double_js_sub)+
  have "num_le (js_mul (num_of_nat i) (Finite sq r25)) (js_mul (num_of_nat j) (Finite sq r25))"
    using le r25(2,3) by (rule js_mul_index_mono)
  then have "num_le (js_add (Finite False 25) (js_mul (num_of_nat i) (Finite sq r25)))
      (js_add (Finite False 25) (js_mul (num_of_nat j) (Finite sq r25)))"
    by (rule js_add_mono_right)
  then have cold: "num_le (fixed_num (Cold (data (physics lg config mat) ! i)))
      (fixed_num (Cold (data (physics lg config mat) ! j)))"
    unfolding data_nth(2) [OF i] data_nth(2) [OF j] lit_25 r25(1)
    by (rule toFixed1_mono) (rule double_js_add)+
  from hot cold show "num_le (fixed_num (Hot (data (physics lg config mat) ! j)))
        (fixed_num (Hot (data (physics lg config mat) ! i)))
      \<and> num_le (fixed_num (Cold (data (physics lg config mat) ! i)))
        (fixed_num (Cold (data (physics lg config mat) ! j)))" ..
qed

text \<open>
  The hypotheses of the statement for C10 hold in the initial state with copper and the
  exact logarithm, at entries 2 and 7.
\<close>

theorem profile_monotone_witness:
  "double (areaOverride initial_config)
   \<and> num_le (lit 0) (Q (physics ln initial_config (materials ! 0)))
   \<and> Q (physics ln initial_config (materials ! 0)) \<noteq> Infinity False
   \<and> (2::nat) \<le> 7 \<and> (7::nat) < 11
   \<and> num_le (fixed_num (Hot (data (physics ln initial_config (materials ! 0)) ! 7)))
        (fixed_num (Hot (data (physics ln initial_config (materials ! 0)) ! 2)))
   \<and> num_le (fixed_num (Cold (data (physics ln initial_config (materials ! 0)) ! 2)))
        (fixed_num (Cold (data (physics ln initial_config (materials ! 0)) ! 7)))"
proof -
  from Q_initial obtain q where
    q: "physics_Q ln initial_config (materials ! 0) = Finite False q" "0 \<le> q" by blast
  have a: "double (areaOverride initial_config)"
    using double_lit [of 15] by (simp add: area_initial lit_15)
  have b: "num_le (lit 0) (Q (physics ln initial_config (materials ! 0)))"
    using q by (simp add: physics_def lit_0)
  have c: "Q (physics ln initial_config (materials ! 0)) \<noteq> Infinity False"
    using q by (simp add: physics_def)
  have d: "(2::nat) \<le> 7 \<and> (7::nat) < 11" by simp
  from profile_monotone [OF a b c] d
  have "num_le (fixed_num (Hot (data (physics ln initial_config (materials ! 0)) ! 7)))
        (fixed_num (Hot (data (physics ln initial_config (materials ! 0)) ! 2)))
      \<and> num_le (fixed_num (Cold (data (physics ln initial_config (materials ! 0)) ! 2)))
        (fixed_num (Cold (data (physics ln initial_config (materials ! 0)) ! 7)))"
    by blast
  with a b c d show ?thesis by blast
qed

end
